theory Spec2Isabelle
  imports Complex_Main
begin

section \<open>Data model shared by the two tools\<close>

text \<open>
  The repository holds two React components, \<open>PdfMerge\<close> and \<open>JpgToPdf\<close>. Each keeps
  an ordered queue of items in component state, lets the user reorder it by drag and
  drop, and runs an asynchronous batch over it. Component state is modelled by records
  and every handler by a function from the state before to the state after.

  A browser \<open>File\<close> carries \<open>name\<close>, \<open>type\<close> and \<open>size\<close>. Its bytes are not a field: they
  are obtained by an asynchronous read that may fail, which the batch functions take as
  a parameter.
\<close>

record File =
  name :: string
  type :: string
  size' :: nat

text \<open>
  A JavaScript array may hold \<open>undefined\<close>; the reordering code can put it there, so the
  element type of the queue has it as a value of its own.
\<close>

datatype 'a slot = Undefined | Item 'a

text \<open>What the code can throw: a property read on \<open>undefined\<close>, a rejected read of a
  file, a source that the decoder refuses.\<close>

datatype exn = TypeError | ReadError | DecodeError

text \<open>\<open>errorMsg\<close> is the empty string or the translation of one key; the model keeps the
  key (and its \<open>max\<close> parameter).\<close>

datatype msg =
    NoMsg
  | PdfMerge_invalidFileType
  | PdfMerge_maxFilesReached nat
  | PdfMerge_someFilesIgnored nat
  | PdfMerge_needAtLeastTwo
  | PdfMerge_mergeFailed
  | JpgToPdf_invalidFileType
  | JpgToPdf_noImagesError
  | JpgToPdf_convertFailed

record item =
  id' :: string
  "file" :: File

record pdfItem = item +
  sizeLabel :: string

record jpgItem = item +
  previewUrl :: string

text \<open>The three pieces of state both components declare under the same names.\<close>

record 'i queue =
  items :: "'i slot list"
  errorMsg :: msg
  dragIndexRef :: "nat option"

subsection \<open>Array and string primitives of the language\<close>

text \<open>
  \<open>Array.prototype.splice(start, deleteCount, ...new)\<close> for non-negative arguments: both
  are clamped to the array, the array after the call and the removed elements are
  returned.
\<close>

definition splice :: "nat \<Rightarrow> nat \<Rightarrow> 'a list \<Rightarrow> 'a list \<Rightarrow> 'a list \<times> 'a list" where
  "splice start deleteCount new xs =
     (let st = min start (length xs);
          dc = min deleteCount (length xs - st)
      in (take st xs @ new @ drop (st + dc) xs, take dc (drop st xs)))"

text \<open>\<open>Array.prototype.filter\<close> with a callback that may throw.\<close>

fun filterE :: "('a \<Rightarrow> exn + bool) \<Rightarrow> 'a list \<Rightarrow> exn + 'a list" where
  "filterE p [] = Inr []"
| "filterE p (x # xs) =
     (case p x of
        Inl e \<Rightarrow> Inl e
      | Inr b \<Rightarrow>
          (case filterE p xs of
             Inl e \<Rightarrow> Inl e
           | Inr ys \<Rightarrow> Inr (if b then x # ys else ys)))"

text \<open>
  \<open>toLowerCase\<close> on the letters A to Z. No character outside that range lowers to one of
  \<open>.\<close>, \<open>p\<close>, \<open>d\<close>, \<open>f\<close>, so the suffix test below is the same as in the browser.
\<close>

definition toLowerCase_char :: "char \<Rightarrow> char" where
  "toLowerCase_char c =
     (case map_of (zip ''ABCDEFGHIJKLMNOPQRSTUVWXYZ'' ''abcdefghijklmnopqrstuvwxyz'') c of
        None \<Rightarrow> c
      | Some l \<Rightarrow> l)"

definition toLowerCase :: "string \<Rightarrow> string" where
  "toLowerCase s = map toLowerCase_char s"

definition endsWith :: "string \<Rightarrow> string \<Rightarrow> bool" where
  "endsWith s suf = (length suf \<le> length s \<and> drop (length s - length suf) s = suf)"

subsection \<open>The reordering updater of both \<open>onDrop\<close> handlers\<close>

text \<open>
  \<^verbatim>\<open>
  setItems((prev) => {
    const next = [...prev];
    const [moved] = next.splice(dragIndex, 1);
    next.splice(dropIndex, 0, moved);
    return next;
  });
  \<close>
  The destructuring \<open>[moved] = removed\<close> gives \<open>undefined\<close> when nothing was removed.
\<close>

definition onDrop_updater :: "nat \<Rightarrow> nat \<Rightarrow> 'a slot list \<Rightarrow> 'a slot list" where
  "onDrop_updater dragIndex dropIndex prev =
     (let next = prev;
          (next1, removed) = splice dragIndex 1 [] next;
          moved = (case removed of [] \<Rightarrow> Undefined | m # _ \<Rightarrow> m);
          (next2, _) = splice dropIndex 0 [moved] next1
      in next2)"

section \<open>PdfMerge\<close>

datatype page = Page string

type_synonym pdfDocument = "page list"

type_synonym bytes = string

definition MAX_FILES :: nat where
  "MAX_FILES = 15"

record pdfMerge = "pdfItem queue" +
  isMerging :: bool
  mergedPdfUrl :: "pdfDocument option"
  progress :: "nat \<times> nat"

text \<open>\<open>mergedPdfUrl\<close> is \<open>null\<close> or the object URL of a blob; the model identifies the URL
  with the document the blob serialises. \<open>progress\<close> is the pair \<open>(current, total)\<close>.\<close>

definition acceptTypes :: "string list" where
  "acceptTypes = [''application/pdf'']"

definition isPdf :: "File \<Rightarrow> bool" where
  "isPdf f = (type f \<in> set acceptTypes \<or> endsWith (toLowerCase (name f)) ''.pdf'')"

text \<open>
  \<open>addFiles\<close>. The parameters \<open>formatBytes\<close> (the size label, a floating-point
  presentation that no property below depends on) and \<open>token\<close> (the result of
  \<open>crypto.randomUUID()\<close> or \<open>Date.now()\<close> for the k-th admitted file) stand for what the
  browser supplies. \<open>fileList\<close> is \<open>None\<close> for \<open>null\<close>.
\<close>

definition PdfMerge_addFiles ::
  "(nat \<Rightarrow> string) \<Rightarrow> (nat \<Rightarrow> string) \<Rightarrow> File list option \<Rightarrow> pdfMerge \<Rightarrow> pdfMerge" where
  "PdfMerge_addFiles formatBytes token fileList s =
     (let s1 = s\<lparr>errorMsg := NoMsg, mergedPdfUrl := None\<rparr>;
          incoming = (case fileList of None \<Rightarrow> [] | Some fs \<Rightarrow> fs)
      in if length incoming = 0 then s1
         else
           let valid = filter isPdf incoming;
               s2 = (if length valid \<noteq> length incoming
                     then s1\<lparr>errorMsg := PdfMerge_invalidFileType\<rparr> else s1);
               availableSlots = int MAX_FILES - int (length (items s))
           in if availableSlots \<le> 0 then s2\<lparr>errorMsg := PdfMerge_maxFilesReached MAX_FILES\<rparr>
              else
                let toAdd = take (nat availableSlots) valid;
                    s3 = (if int (length valid) > availableSlots
                          then s2\<lparr>errorMsg := PdfMerge_someFilesIgnored MAX_FILES\<rparr> else s2);
                    newItems =
                      map (\<lambda>(k, f). Item \<lparr>id' = token k @ ''-'' @ name f, file = f,
                                            sizeLabel = formatBytes (size' f)\<rparr>)
                        (enumerate 0 toAdd)
                in s3\<lparr>items := items s3 @ newItems\<rparr>)"

text \<open>\<open>removeItem\<close>: the callback \<open>x.id !== id\<close> throws on an \<open>undefined\<close> element.\<close>

definition idDiffers :: "string \<Rightarrow> ('a item_scheme) slot \<Rightarrow> exn + bool" where
  "idDiffers i x = (case x of Undefined \<Rightarrow> Inl TypeError | Item it \<Rightarrow> Inr (id' it \<noteq> i))"

definition PdfMerge_removeItem :: "string \<Rightarrow> pdfMerge \<Rightarrow> exn + pdfMerge" where
  "PdfMerge_removeItem i s =
     (let s1 = s\<lparr>mergedPdfUrl := None\<rparr>
      in case filterE (idDiffers i) (items s1) of
           Inl e \<Rightarrow> Inl e
         | Inr kept \<Rightarrow> Inr (s1\<lparr>items := kept\<rparr>))"

definition PdfMerge_clearAll :: "pdfMerge \<Rightarrow> pdfMerge" where
  "PdfMerge_clearAll s = s\<lparr>mergedPdfUrl := None, errorMsg := NoMsg, items := []\<rparr>"

definition PdfMerge_onDragStart :: "nat \<Rightarrow> pdfMerge \<Rightarrow> pdfMerge" where
  "PdfMerge_onDragStart index s = s\<lparr>dragIndexRef := Some index\<rparr>"



definition PdfMerge_onDrop :: "nat \<Rightarrow> pdfMerge \<Rightarrow> pdfMerge" where
  "PdfMerge_onDrop dropIndex s =
     (let dragIndex = dragIndexRef s;
          s1 = s\<lparr>dragIndexRef := None\<rparr>
      in case dragIndex of
           None \<Rightarrow> s1
         | Some d \<Rightarrow>
             if d = dropIndex then s1
             else s1\<lparr>mergedPdfUrl := None, items := onDrop_updater d dropIndex (items s1)\<rparr>)"

subsection \<open>The merge run\<close>

text \<open>
  The PDF-construction library (pdf-lib) is an external collaborator, not code of the
  repository. A document is the list of its pages in their internal order, and the three
  library calls of the loop are modelled from the interface the spec gives for them
  (section 6: \<open>pageIndices\<close>, \<open>copyPages\<close>, \<open>appendPage\<close>). \<open>PDFDocument.create\<close> and
  \<open>save\<close> are taken to return normally; the blob is identified with the document.
\<close>

text \<open>Modelled from the spec: \<open>Document.pageIndices() -> sequence of index\<close>, every index
  of the document in order.\<close>

definition getPageIndices :: "pdfDocument \<Rightarrow> nat list" where
  "getPageIndices d = [0..<length d]"

text \<open>Modelled from the spec: \<open>copyPages(sourceDocument, indices) -> sequence of
  PageHandle\<close>, the pages at the given indices, in the order of the indices.\<close>

definition copyPages :: "pdfDocument \<Rightarrow> nat list \<Rightarrow> page list" where
  "copyPages src indices = map (\<lambda>k. src ! k) indices"

text \<open>Modelled from the spec: \<open>Document.appendPage(PageHandle)\<close>, the page is added at
  the end of the page list.\<close>

definition addPage :: "pdfDocument \<Rightarrow> page \<Rightarrow> pdfDocument" where
  "addPage d p = d @ [p]"

text \<open>What a run does that an observer can see, in the order it does it: the read of
  item \<open>i\<close>, the parse of item \<open>i\<close>, a call of \<open>setProgress\<close>.\<close>

datatype pdfEffect = ArrayBuffer nat | Load nat | SetProgress nat nat

text \<open>
  The \<open>for\<close> loop of \<open>mergePdfs\<close> from index \<open>i\<close>. \<open>arrayBuffer\<close> is the read of a file's
  bytes and \<open>load\<close> is \<open>PDFDocument.load\<close>; \<open>None\<close> is a rejected promise. The result is
  what the loop throws or the output document, with the state (only \<open>progress\<close>
  changes) and the effects so far.
\<close>

function PdfMerge_mergeLoop ::
  "(File \<Rightarrow> bytes option) \<Rightarrow> (bytes \<Rightarrow> pdfDocument option) \<Rightarrow> nat \<Rightarrow> pdfDocument \<Rightarrow>
   pdfMerge \<Rightarrow> pdfEffect list \<Rightarrow> (exn + pdfDocument) \<times> pdfMerge \<times> pdfEffect list" where
  "PdfMerge_mergeLoop arrayBuffer load i outPdf s tr =
     (if i < length (items s) then
        (case items s ! i of
           Undefined \<Rightarrow> (Inl TypeError, s, tr)
         | Item it \<Rightarrow>
             (case arrayBuffer (file it) of
                None \<Rightarrow> (Inl ReadError, s, tr @ [ArrayBuffer i])
              | Some bytes \<Rightarrow>
                  (case load bytes of
                     None \<Rightarrow> (Inl DecodeError, s, tr @ [ArrayBuffer i, Load i])
                   | Some srcPdf \<Rightarrow>
                       let pageIndices = getPageIndices srcPdf;
                           copiedPages = copyPages srcPdf pageIndices;
                           outPdf1 = foldl addPage outPdf copiedPages;
                           s1 = s\<lparr>progress := (i + 1, length (items s))\<rparr>
                       in PdfMerge_mergeLoop arrayBuffer load (i + 1) outPdf1 s1
                            (tr @ [ArrayBuffer i, Load i, SetProgress (i + 1) (length (items s))]))))
      else (Inr outPdf, s, tr))"
  by pat_completeness auto
termination
  by (relation "measure (\<lambda>(arrayBuffer, load, i, outPdf, s, tr). length (items s) - i)") auto

declare PdfMerge_mergeLoop.simps [simp del]

text \<open>\<open>mergePdfs\<close>: the state after the run and the effects of the run.\<close>

definition mergePdfs ::
  "(File \<Rightarrow> bytes option) \<Rightarrow> (bytes \<Rightarrow> pdfDocument option) \<Rightarrow> pdfMerge \<Rightarrow>
   pdfMerge \<times> pdfEffect list" where
  "mergePdfs arrayBuffer load s =
     (let s1 = s\<lparr>errorMsg := NoMsg, mergedPdfUrl := None\<rparr>
      in if length (items s) < 2 then (s1\<lparr>errorMsg := PdfMerge_needAtLeastTwo\<rparr>, [])
         else
           let s2 = s1\<lparr>isMerging := True, progress := (0, length (items s))\<rparr>
           in case PdfMerge_mergeLoop arrayBuffer load 0 [] s2
                     [SetProgress 0 (length (items s))] of
                (Inr outPdf, s3, tr) \<Rightarrow> (s3\<lparr>mergedPdfUrl := Some outPdf, isMerging := False\<rparr>, tr)
              | (Inl err, s3, tr) \<Rightarrow>
                  (s3\<lparr>errorMsg := PdfMerge_mergeFailed, isMerging := False\<rparr>, tr))"

section \<open>JpgToPdf\<close>

text \<open>
  The jsPDF document is kept as the list of calls made on it: the constructor with its
  \<open>unit\<close>, \<open>format\<close> and \<open>orientation\<close>, \<open>addPage\<close> and \<open>addImage\<close>. Pixel counts are natural
  numbers and points are rationals: \<open>px * 0.75\<close> is exact in double precision for every
  pixel count an image can have. The calls on the document are taken to return normally;
  the blob of \<open>pdf.output\<close> is identified with the document.
\<close>

datatype orientation = Landscape | Portrait

datatype imageFormat = JPEG | PNG

datatype jsPdfCall =
    JsPDF string "rat \<times> rat" orientation
  | AddPage "rat \<times> rat" orientation
  | AddImage string imageFormat rat rat rat rat

record jpgToPdf = "jpgItem queue" +
  isConverting :: bool
  pdfUrl :: "jsPdfCall list option"
  revoked :: "string list"

text \<open>\<open>revoked\<close> lists the preview URLs the handlers have passed to
  \<open>URL.revokeObjectURL\<close>.\<close>

definition acceptTypes_J :: "string list" where
  "acceptTypes_J = [''image/jpeg'', ''image/jpg'', ''image/png'']"

definition isImage :: "File \<Rightarrow> bool" where
  "isImage f = (type f \<in> set acceptTypes_J)"

definition JpgToPdf_addFiles ::
  "(nat \<Rightarrow> string) \<Rightarrow> (nat \<Rightarrow> string) \<Rightarrow> File list option \<Rightarrow> jpgToPdf \<Rightarrow> jpgToPdf" where
  "JpgToPdf_addFiles createObjectURL token fileList s =
     (let s1 = s\<lparr>errorMsg := NoMsg, pdfUrl := None\<rparr>;
          incoming = (case fileList of None \<Rightarrow> [] | Some fs \<Rightarrow> fs);
          valid = filter isImage incoming
      in if length incoming > 0 \<and> length valid = 0
         then s1\<lparr>errorMsg := JpgToPdf_invalidFileType\<rparr>
         else
           let newItems =
                 map (\<lambda>(k, f). Item \<lparr>id' = token k @ ''-'' @ name f, file = f,
                                       previewUrl = createObjectURL k\<rparr>)
                   (enumerate 0 valid)
           in s1\<lparr>items := items s1 @ newItems\<rparr>)"

text \<open>\<open>Array.prototype.find\<close> with the callback \<open>x.id === id\<close>, which throws on
  \<open>undefined\<close>.\<close>

fun findById :: "string \<Rightarrow> ('a item_scheme) slot list \<Rightarrow> exn + ('a item_scheme) option" where
  "findById i [] = Inr None"
| "findById i (Undefined # xs) = Inl TypeError"
| "findById i (Item it # xs) = (if id' it = i then Inr (Some it) else findById i xs)"

definition JpgToPdf_removeItem :: "string \<Rightarrow> jpgToPdf \<Rightarrow> exn + jpgToPdf" where
  "JpgToPdf_removeItem i s =
     (let s1 = s\<lparr>pdfUrl := None\<rparr>
      in case findById i (items s1) of
           Inl e \<Rightarrow> Inl e
         | Inr target \<Rightarrow>
             (let s2 = (case target of
                          None \<Rightarrow> s1
                        | Some it \<Rightarrow> s1\<lparr>revoked := revoked s1 @ [previewUrl it]\<rparr>)
              in (case filterE (idDiffers i) (items s2) of
                    Inl e \<Rightarrow> Inl e
                  | Inr kept \<Rightarrow> Inr (s2\<lparr>items := kept\<rparr>))))"

text \<open>\<open>prev.forEach((it) => URL.revokeObjectURL(it.previewUrl))\<close>: the URLs revoked, or
  the exception of the first \<open>undefined\<close> element.\<close>

fun revokeAll :: "jpgItem slot list \<Rightarrow> exn + string list" where
  "revokeAll [] = Inr []"
| "revokeAll (Undefined # xs) = Inl TypeError"
| "revokeAll (Item it # xs) =
     (case revokeAll xs of Inl e \<Rightarrow> Inl e | Inr us \<Rightarrow> Inr (previewUrl it # us))"

definition JpgToPdf_clearAll :: "jpgToPdf \<Rightarrow> exn + jpgToPdf" where
  "JpgToPdf_clearAll s =
     (let s1 = s\<lparr>pdfUrl := None, errorMsg := NoMsg\<rparr>
      in case revokeAll (items s1) of
           Inl e \<Rightarrow> Inl e
         | Inr us \<Rightarrow> Inr (s1\<lparr>revoked := revoked s1 @ us, items := []\<rparr>))"

definition JpgToPdf_onDragStart :: "nat \<Rightarrow> jpgToPdf \<Rightarrow> jpgToPdf" where
  "JpgToPdf_onDragStart index s = s\<lparr>dragIndexRef := Some index\<rparr>"

definition JpgToPdf_onDrop :: "nat \<Rightarrow> jpgToPdf \<Rightarrow> jpgToPdf" where
  "JpgToPdf_onDrop dropIndex s =
     (let dragIndex = dragIndexRef s;
          s1 = s\<lparr>dragIndexRef := None\<rparr>
      in case dragIndex of
           None \<Rightarrow> s1
         | Some d \<Rightarrow>
             if d = dropIndex then s1
             else s1\<lparr>pdfUrl := None, items := onDrop_updater d dropIndex (items s1)\<rparr>)"

subsection \<open>The conversion run\<close>

definition pxToPt :: "nat \<Rightarrow> rat" where
  "pxToPt px = of_nat px * 0.75"

datatype jpgEffect = ReadAsDataURL nat | LoadImage nat

text \<open>
  The \<open>for\<close> loop of \<open>convertToPdf\<close> from index \<open>i\<close>. \<open>readFileAsDataUrl\<close> yields the data
  URL of a file and \<open>loadImage\<close> the \<open>naturalWidth\<close> and \<open>naturalHeight\<close> of the decoded
  image; \<open>None\<close> is a rejected promise. \<open>pdf\<close> is \<open>None\<close> while the variable is \<open>null\<close>.
\<close>

function JpgToPdf_convertLoop ::
  "(File \<Rightarrow> string option) \<Rightarrow> (string \<Rightarrow> (nat \<times> nat) option) \<Rightarrow> jpgItem slot list \<Rightarrow> nat \<Rightarrow>
   jsPdfCall list option \<Rightarrow> jpgEffect list \<Rightarrow> (exn + jsPdfCall list option) \<times> jpgEffect list" where
  "JpgToPdf_convertLoop readFileAsDataUrl loadImage its i pdf tr =
     (if i < length its then
        (case its ! i of
           Undefined \<Rightarrow> (Inl TypeError, tr)
         | Item it \<Rightarrow>
             (case readFileAsDataUrl (file it) of
                None \<Rightarrow> (Inl ReadError, tr @ [ReadAsDataURL i])
              | Some dataUrl \<Rightarrow>
                  (case loadImage dataUrl of
                     None \<Rightarrow> (Inl DecodeError, tr @ [ReadAsDataURL i, LoadImage i])
                   | Some (naturalWidth, naturalHeight) \<Rightarrow>
                       let wPt = max 1 (pxToPt naturalWidth);
                           hPt = max 1 (pxToPt naturalHeight);
                           orientation = (if wPt \<ge> hPt then Landscape else Portrait);
                           pdf1 = (case pdf of
                                     None \<Rightarrow> [JsPDF ''pt'' (wPt, hPt) orientation]
                                   | Some d \<Rightarrow> d @ [AddPage (wPt, hPt) orientation]);
                           isJpeg = (type (file it) = ''image/jpeg'' \<or> type (file it) = ''image/jpg'');
                           pdf2 = pdf1 @ [AddImage dataUrl (if isJpeg then JPEG else PNG) 0 0 wPt hPt]
                       in JpgToPdf_convertLoop readFileAsDataUrl loadImage its (i + 1) (Some pdf2)
                            (tr @ [ReadAsDataURL i, LoadImage i]))))
      else (Inr pdf, tr))"
  by pat_completeness auto
termination
  by (relation "measure (\<lambda>(readFileAsDataUrl, loadImage, its, i, pdf, tr). length its - i)") auto

declare JpgToPdf_convertLoop.simps [simp del]

text \<open>\<open>convertToPdf\<close>. \<open>pdf.output\<close> on a \<open>null\<close> document would throw inside the \<open>try\<close>.\<close>

definition convertToPdf ::
  "(File \<Rightarrow> string option) \<Rightarrow> (string \<Rightarrow> (nat \<times> nat) option) \<Rightarrow> jpgToPdf \<Rightarrow>
   jpgToPdf \<times> jpgEffect list" where
  "convertToPdf readFileAsDataUrl loadImage s =
     (let s1 = s\<lparr>errorMsg := NoMsg, pdfUrl := None\<rparr>
      in if length (items s) = 0 then (s1\<lparr>errorMsg := JpgToPdf_noImagesError\<rparr>, [])
         else
           let s2 = s1\<lparr>isConverting := True\<rparr>
           in case JpgToPdf_convertLoop readFileAsDataUrl loadImage (items s) 0 None [] of
                (Inr (Some d), tr) \<Rightarrow> (s2\<lparr>pdfUrl := Some d, isConverting := False\<rparr>, tr)
              | (Inr None, tr) \<Rightarrow>
                  (s2\<lparr>errorMsg := JpgToPdf_convertFailed, isConverting := False\<rparr>, tr)
              | (Inl err, tr) \<Rightarrow>
                  (s2\<lparr>errorMsg := JpgToPdf_convertFailed, isConverting := False\<rparr>, tr))"

section \<open>Rendering, and notions used to state the properties\<close>

text \<open>
  Both components render the queue with \<open>items.map((it, idx) => ... key={it.id} ...)\<close>; the
  keys of the rendered list, or the exception of the first \<open>undefined\<close> element.
\<close>

fun renderKeys :: "('a item_scheme) slot list \<Rightarrow> exn + string list" where
  "renderKeys [] = Inr []"
| "renderKeys (Undefined # xs) = Inl TypeError"
| "renderKeys (Item it # xs) =
     (case renderKeys xs of Inl e \<Rightarrow> Inl e | Inr ks \<Rightarrow> Inr (id' it # ks))"

text \<open>What reading and parsing one queue entry yields: its source document, or nothing
  when the entry is \<open>undefined\<close>, the read is rejected or the parse fails.\<close>

definition parsed ::
  "(File \<Rightarrow> bytes option) \<Rightarrow> (bytes \<Rightarrow> pdfDocument option) \<Rightarrow> pdfItem slot \<Rightarrow> pdfDocument option" where
  "parsed arrayBuffer load x =
     (case x of
        Undefined \<Rightarrow> None
      | Item it \<Rightarrow> (case arrayBuffer (file it) of None \<Rightarrow> None | Some b \<Rightarrow> load b))"

text \<open>The leading entries of a queue that read and parse.\<close>

definition readable ::
  "(File \<Rightarrow> bytes option) \<Rightarrow> (bytes \<Rightarrow> pdfDocument option) \<Rightarrow> pdfItem slot list \<Rightarrow> pdfItem slot list" where
  "readable arrayBuffer load its = takeWhile (\<lambda>x. parsed arrayBuffer load x \<noteq> None) its"

text \<open>The effects of one completed item of a merge over \<open>n\<close> items.\<close>

definition mergeEffects :: "nat \<Rightarrow> nat \<Rightarrow> pdfEffect list" where
  "mergeEffects n j = [ArrayBuffer j, Load j, SetProgress (j + 1) n]"

fun isSetProgress :: "pdfEffect \<Rightarrow> bool" where
  "isSetProgress (SetProgress c t) = True"
| "isSetProgress _ = False"

text \<open>The file a queue entry holds.\<close>

definition entryFile :: "('a item_scheme) slot \<Rightarrow> File option" where
  "entryFile x = (case x of Undefined \<Rightarrow> None | Item it \<Rightarrow> Some (file it))"

text \<open>What reading and decoding one queue entry yields: its data URL and the pixel width
  and height of the decoded image, or nothing when the entry is \<open>undefined\<close>, the read
  is rejected or the image does not load.\<close>

definition decoded ::
  "(File \<Rightarrow> string option) \<Rightarrow> (string \<Rightarrow> (nat \<times> nat) option) \<Rightarrow> jpgItem slot \<Rightarrow>
   (string \<times> nat \<times> nat) option" where
  "decoded readFileAsDataUrl loadImage x =
     (case x of
        Undefined \<Rightarrow> None
      | Item it \<Rightarrow>
          (case readFileAsDataUrl (file it) of
             None \<Rightarrow> None
           | Some u \<Rightarrow> (case loadImage u of None \<Rightarrow> None | Some (w, h) \<Rightarrow> Some (u, w, h))))"

text \<open>The leading entries of a queue that read and decode.\<close>

definition decodable ::
  "(File \<Rightarrow> string option) \<Rightarrow> (string \<Rightarrow> (nat \<times> nat) option) \<Rightarrow> jpgItem slot list \<Rightarrow>
   jpgItem slot list" where
  "decodable readFileAsDataUrl loadImage its =
     takeWhile (\<lambda>x. decoded readFileAsDataUrl loadImage x \<noteq> None) its"

text \<open>The effects of one completed item of a conversion.\<close>

definition convertEffects :: "nat \<Rightarrow> jpgEffect list" where
  "convertEffects j = [ReadAsDataURL j, LoadImage j]"

text \<open>The image format passed to \<open>addImage\<close> for an entry.\<close>

definition entryFormat :: "jpgItem slot \<Rightarrow> imageFormat" where
  "entryFormat x =
     (case x of
        Undefined \<Rightarrow> PNG
      | Item it \<Rightarrow> if type (file it) \<in> {''image/jpeg'', ''image/jpg''} then JPEG else PNG)"

text \<open>
  The calls the \<open>j\<close>-th image of a run is to cause, stated from the image alone: every
  pixel dimension is scaled by three quarters and raised to 1 where it falls below; the
  page has that size, landscape when it is at least as wide as high; the image is placed
  at the origin with the size of the page. The first image creates the document, every
  later one adds a page.
\<close>

definition specCalls :: "nat \<Rightarrow> jpgItem slot \<Rightarrow> string \<times> nat \<times> nat \<Rightarrow> jsPdfCall list" where
  "specCalls j x d =
     (case d of
        (u, w, h) \<Rightarrow>
          let W = max 1 (of_nat w * (3 / 4));
              H = max 1 (of_nat h * (3 / 4));
              ori = (if H \<le> W then Landscape else Portrait)
          in [if j = 0 then JsPDF ''pt'' (W, H) ori else AddPage (W, H) ori,
              AddImage u (entryFormat x) 0 0 W H])"

text \<open>The document after the first \<open>m\<close> images: still \<open>null\<close> when \<open>m = 0\<close>.\<close>

definition pdfAfter :: "jpgItem slot list \<Rightarrow> (string \<times> nat \<times> nat) list \<Rightarrow> jsPdfCall list option" where
  "pdfAfter its ds =
     (if ds = [] then None
      else Some (concat (map (\<lambda>j. specCalls j (its ! j) (ds ! j)) [0..<length ds])))"

text \<open>A call whose page or placement is at least one point wide and high.\<close>

fun nondegenerate :: "jsPdfCall \<Rightarrow> bool" where
  "nondegenerate (JsPDF u (w, h) ori) = (1 \<le> w \<and> 1 \<le> h)"
| "nondegenerate (AddPage (w, h) ori) = (1 \<le> w \<and> 1 \<le> h)"
| "nondegenerate (AddImage u f x y w h) = (1 \<le> w \<and> 1 \<le> h)"

subsection \<open>Concrete states for the examples\<close>

definition exPdfFile :: "string \<Rightarrow> File" where
  "exPdfFile n = \<lparr>name = n, type = ''application/pdf'', size' = 2048\<rparr>"

definition exPdfItem :: "string \<Rightarrow> pdfItem slot" where
  "exPdfItem n = Item \<lparr>id' = ''k-'' @ n, file = exPdfFile n, sizeLabel = ''2.0 KB''\<rparr>"

definition exPdfMerge :: "pdfItem slot list \<Rightarrow> pdfMerge" where
  "exPdfMerge its = \<lparr>items = its, errorMsg = NoMsg, dragIndexRef = None,
     isMerging = False, mergedPdfUrl = None, progress = (0, 0)\<rparr>"

definition exImageFile :: "string \<Rightarrow> string \<Rightarrow> File" where
  "exImageFile n t = \<lparr>name = n, type = t, size' = 4096\<rparr>"

definition exJpgItem :: "string \<Rightarrow> string \<Rightarrow> jpgItem slot" where
  "exJpgItem n t = Item \<lparr>id' = ''k-'' @ n, file = exImageFile n t, previewUrl = ''blob:'' @ n\<rparr>"

definition exJpgToPdf :: "jpgItem slot list \<Rightarrow> jpgToPdf" where
  "exJpgToPdf its = \<lparr>items = its, errorMsg = NoMsg, dragIndexRef = None,
     isConverting = False, pdfUrl = None, revoked = []\<rparr>"

definition exPdfMergeDone :: pdfMerge where
  "exPdfMergeDone = (exPdfMerge [exPdfItem ''A.pdf'', exPdfItem ''B.pdf''])
     \<lparr>mergedPdfUrl := Some [Page ''A1'', Page ''B1''], dragIndexRef := Some 0\<rparr>"

definition exJpgToPdfDone :: jpgToPdf where
  "exJpgToPdfDone = (exJpgToPdf [exJpgItem ''a.png'' ''image/png'', exJpgItem ''b.jpg'' ''image/jpeg''])
     \<lparr>pdfUrl := Some [JsPDF ''pt'' (75, 75) Landscape, AddImage ''data:a'' PNG 0 0 75 75],
      dragIndexRef := Some 0\<rparr>"

definition exFormatBytes :: "nat \<Rightarrow> string" where
  "exFormatBytes b = ''2.0 KB''"

definition exToken :: "nat \<Rightarrow> string" where
  "exToken k = replicate (Suc k) CHR ''u''"

definition exTextFile :: File where
  "exTextFile = \<lparr>name = ''notes.txt'', type = ''text/plain'', size' = 10\<rparr>"

definition exFullQueue :: pdfMerge where
  "exFullQueue = exPdfMerge (map (\<lambda>k. exPdfItem (replicate k CHR ''a'' @ ''.pdf'')) [0..<15])"

definition exAlmostFullQueue :: pdfMerge where
  "exAlmostFullQueue = exPdfMerge (map (\<lambda>k. exPdfItem (replicate k CHR ''a'' @ ''.pdf'')) [0..<14])"

definition exArrayBuffer :: "File \<Rightarrow> bytes option" where
  "exArrayBuffer f = (if name f = ''unreadable.pdf'' then None else Some (name f))"

definition exLoad :: "bytes \<Rightarrow> pdfDocument option" where
  "exLoad b =
     (if b = ''A.pdf'' then Some [Page ''A1'', Page ''A2'', Page ''A3'']
      else if b = ''B.pdf'' then Some [Page ''B1'']
      else if b = ''C.pdf'' then Some [Page ''C1'', Page ''C2'']
      else None)"

definition exReadFileAsDataUrl :: "File \<Rightarrow> string option" where
  "exReadFileAsDataUrl f = (if name f = ''unreadable.png'' then None else Some (''data:'' @ name f))"

definition exLoadImage :: "string \<Rightarrow> (nat \<times> nat) option" where
  "exLoadImage u =
     (if u = ''data:wide.png'' then Some (800, 600)
      else if u = ''data:tall.jpg'' then Some (600, 800)
      else if u = ''data:dot.png'' then Some (1, 1)
      else if u = ''data:sliver.png'' then Some (0, 5)
      else None)"

definition exThreePdfs :: pdfMerge where
  "exThreePdfs = exPdfMerge [exPdfItem ''A.pdf'', exPdfItem ''B.pdf'', exPdfItem ''C.pdf'']"

definition exSecondUnreadable :: pdfMerge where
  "exSecondUnreadable = exPdfMerge [exPdfItem ''A.pdf'', exPdfItem ''unreadable.pdf'', exPdfItem ''B.pdf'']"

definition exTwoImages :: jpgToPdf where
  "exTwoImages = exJpgToPdf [exJpgItem ''wide.png'' ''image/png'', exJpgItem ''tall.jpg'' ''image/jpeg'']"

definition exTinyImages :: jpgToPdf where
  "exTinyImages = exJpgToPdf [exJpgItem ''dot.png'' ''image/png'', exJpgItem ''sliver.png'' ''image/png'']"

definition exOnePixel :: jpgToPdf where
  "exOnePixel = exJpgToPdf [exJpgItem ''dot.png'' ''image/png'']"

definition exSecondImageBad :: jpgToPdf where
  "exSecondImageBad = exJpgToPdf [exJpgItem ''wide.png'' ''image/png'',
     exJpgItem ''unreadable.png'' ''image/png'', exJpgItem ''tall.jpg'' ''image/jpeg'']"

section \<open>Reordering by drag and drop\<close>

lemma splice_remove:
  "s < length xs \<Longrightarrow> splice s 1 [] xs = (take s xs @ drop (Suc s) xs, [xs ! s])"
  by (simp add: splice_def Let_def min_def take_Suc_conv_app_nth hd_drop_conv_nth)

lemma splice_insert:
  "t \<le> length ys \<Longrightarrow> splice t 0 [m] ys = (take t ys @ m # drop t ys, [])"
  by (simp add: splice_def Let_def min_def)

lemma onDrop_updater_in_range:
  assumes "s < length xs" "t < length xs"
  shows "onDrop_updater s t xs =
           take t (take s xs @ drop (Suc s) xs) @ xs ! s # drop t (take s xs @ drop (Suc s) xs)"
proof -
  have "t \<le> length (take s xs @ drop (Suc s) xs)"
    using assms by simp
  then show ?thesis
    using assms by (simp only: onDrop_updater_def Let_def splice_remove splice_insert prod.case list.case)
qed

lemma removed_nth:
  "d < length xs \<Longrightarrow> j < length xs - 1 \<Longrightarrow>
   (take d xs @ drop (Suc d) xs) ! j = (if j < d then xs ! j else xs ! Suc j)"
  by (simp add: nth_append min_def)

lemma onDrop_updater_nth:
  assumes "d < length xs" "t < length xs" "i < length xs"
  shows "onDrop_updater d t xs ! i =
           (if i = t then xs ! d
            else if d \<le> i \<and> i < t then xs ! (i + 1)
            else if t < i \<and> i \<le> d then xs ! (i - 1)
            else xs ! i)"
proof -
  define r where "r = take d xs @ drop (Suc d) xs"
  have len: "length r = length xs - 1" using assms by (simp add: r_def)
  have r_nth: "r ! j = (if j < d then xs ! j else xs ! Suc j)" if "j < length xs - 1" for j
    unfolding r_def by (rule removed_nth[OF assms(1) that])
  have upd: "onDrop_updater d t xs = take t r @ xs ! d # drop t r"
    using assms by (simp only: onDrop_updater_in_range r_def)
  consider (lt) "i < t" | (eq) "i = t" | (gt) "t < i" by linarith
  then show ?thesis
  proof cases
    case lt
    then have "onDrop_updater d t xs ! i = r ! i"
      using assms len by (simp add: upd nth_append)
    also have "\<dots> = (if i < d then xs ! i else xs ! Suc i)"
      using assms lt by (intro r_nth) auto
    finally show ?thesis using lt by auto
  next
    case eq
    then show ?thesis using assms len by (simp add: upd nth_append)
  next
    case gt
    then have "onDrop_updater d t xs ! i = r ! (i - 1)"
      using assms len by (simp add: upd nth_append nth_Cons' min_def)
    also have "\<dots> = (if i - 1 < d then xs ! (i - 1) else xs ! Suc (i - 1))"
      using assms gt by (intro r_nth) auto
    finally show ?thesis using gt by auto
  qed
qed

lemma onDrop_updater_length:
  "d < length xs \<Longrightarrow> t < length xs \<Longrightarrow> length (onDrop_updater d t xs) = length xs"
  by (simp add: onDrop_updater_in_range)

text \<open>A drag index at or beyond the end of the queue removes nothing, and \<open>undefined\<close> is
  inserted at the drop position.\<close>

lemma onDrop_updater_out_of_range:
  assumes "length xs \<le> d"
  shows "onDrop_updater d t xs = take t xs @ Undefined # drop t xs"
  using assms by (simp add: onDrop_updater_def splice_def Let_def min_def)

text \<open>
  A drag started at index \<open>d\<close> and dropped at index \<open>t\<close>. Dropped where it started, it
  leaves the queue and the output handle as they were. Otherwise, for \<open>d\<close> and \<open>t\<close> inside
  the queue, the queue keeps its length, the item that was at \<open>d\<close> is at \<open>t\<close>, the items
  between the two positions are shifted by one towards \<open>d\<close>, every other item stays
  where it was, and the output handle is cleared. The reference is empty after every
  drop; a drop that finds it empty (at mount, or after another drop with no drag started
  since) changes neither the queue nor the handle.
\<close>

lemma drop_after_drag_start:
  "items (PdfMerge_onDrop d (PdfMerge_onDragStart d s)) = items s
   \<and> mergedPdfUrl (PdfMerge_onDrop d (PdfMerge_onDragStart d s)) = mergedPdfUrl s
   \<and> (d \<noteq> t \<and> d < length (items s) \<and> t < length (items s) \<longrightarrow>
      length (items (PdfMerge_onDrop t (PdfMerge_onDragStart d s))) = length (items s) \<and>
      items (PdfMerge_onDrop t (PdfMerge_onDragStart d s)) ! t = items s ! d \<and>
      (\<forall>i < length (items s). i \<noteq> t \<longrightarrow>
         items (PdfMerge_onDrop t (PdfMerge_onDragStart d s)) ! i =
           (if d \<le> i \<and> i < t then items s ! (i + 1)
            else if t < i \<and> i \<le> d then items s ! (i - 1)
            else items s ! i)) \<and>
      mergedPdfUrl (PdfMerge_onDrop t (PdfMerge_onDragStart d s)) = None)
   \<and> dragIndexRef (PdfMerge_onDrop t (PdfMerge_onDragStart d s)) = None
   \<and> (dragIndexRef s = None \<longrightarrow>
        items (PdfMerge_onDrop t s) = items s \<and> mergedPdfUrl (PdfMerge_onDrop t s) = mergedPdfUrl s)
   \<and> items (PdfMerge_onDrop t' (PdfMerge_onDrop t s)) = items (PdfMerge_onDrop t s)
   \<and> (items s = [X, Y, Z] \<longrightarrow>
        items (PdfMerge_onDrop 2 (PdfMerge_onDragStart 0 s)) = [Y, Z, X])"
proof (intro conjI impI)
  show "items (PdfMerge_onDrop d (PdfMerge_onDragStart d s)) = items s"
    by (simp add: PdfMerge_onDrop_def PdfMerge_onDragStart_def)
  show "mergedPdfUrl (PdfMerge_onDrop d (PdfMerge_onDragStart d s)) = mergedPdfUrl s"
    by (simp add: PdfMerge_onDrop_def PdfMerge_onDragStart_def)
next
  assume a: "d \<noteq> t \<and> d < length (items s) \<and> t < length (items s)"
  then have it: "items (PdfMerge_onDrop t (PdfMerge_onDragStart d s)) = onDrop_updater d t (items s)"
    by (simp add: PdfMerge_onDrop_def PdfMerge_onDragStart_def)
  show "length (items (PdfMerge_onDrop t (PdfMerge_onDragStart d s))) = length (items s)"
    using a by (simp add: it onDrop_updater_length)
  show "items (PdfMerge_onDrop t (PdfMerge_onDragStart d s)) ! t = items s ! d"
    using a by (simp add: it onDrop_updater_nth)
  show "\<forall>i < length (items s). i \<noteq> t \<longrightarrow>
         items (PdfMerge_onDrop t (PdfMerge_onDragStart d s)) ! i =
           (if d \<le> i \<and> i < t then items s ! (i + 1)
            else if t < i \<and> i \<le> d then items s ! (i - 1)
            else items s ! i)"
    using a by (simp add: it onDrop_updater_nth)
  show "mergedPdfUrl (PdfMerge_onDrop t (PdfMerge_onDragStart d s)) = None"
    using a by (simp add: PdfMerge_onDrop_def PdfMerge_onDragStart_def)
next
  show "dragIndexRef (PdfMerge_onDrop t (PdfMerge_onDragStart d s)) = None"
    by (simp add: PdfMerge_onDrop_def PdfMerge_onDragStart_def Let_def)
next
  assume n: "dragIndexRef s = None"
  then show "items (PdfMerge_onDrop t s) = items s"
    by (simp add: PdfMerge_onDrop_def)
  from n show "mergedPdfUrl (PdfMerge_onDrop t s) = mergedPdfUrl s"
    by (simp add: PdfMerge_onDrop_def)
next
  have "dragIndexRef (PdfMerge_onDrop t s) = None"
    by (simp add: PdfMerge_onDrop_def Let_def split: option.split)
  then show "items (PdfMerge_onDrop t' (PdfMerge_onDrop t s)) = items (PdfMerge_onDrop t s)"
    by (simp add: PdfMerge_onDrop_def[of t'])
next
  assume "items s = [X, Y, Z]"
  then show "items (PdfMerge_onDrop 2 (PdfMerge_onDragStart 0 s)) = [Y, Z, X]"
    by (simp add: PdfMerge_onDrop_def PdfMerge_onDragStart_def onDrop_updater_def splice_def)
qed


text \<open>
  C4 (the code departs from the claim). A drag index left over from an earlier drag can
  be at or beyond the end of the queue. The drop then is not a no-op: in both tools the
  queue gains an \<open>undefined\<close> element at the drop position, and the next render, which
  reads \<open>it.id\<close> of every element, throws.
\<close>

theorem stale_drag_index_corrupts_queue:
  "items (PdfMerge_onDrop 0 ((exPdfMerge [exPdfItem ''A'', exPdfItem ''B''])\<lparr>dragIndexRef := Some 2\<rparr>))
     = [Undefined, exPdfItem ''A'', exPdfItem ''B'']
   \<and> renderKeys (items (PdfMerge_onDrop 0
         ((exPdfMerge [exPdfItem ''A'', exPdfItem ''B''])\<lparr>dragIndexRef := Some 2\<rparr>))) = Inl TypeError
   \<and> items (JpgToPdf_onDrop 0
         ((exJpgToPdf [exJpgItem ''A'' ''image/png'', exJpgItem ''B'' ''image/png''])\<lparr>dragIndexRef := Some 2\<rparr>))
     = [Undefined, exJpgItem ''A'' ''image/png'', exJpgItem ''B'' ''image/png'']
   \<and> renderKeys (items (JpgToPdf_onDrop 0
         ((exJpgToPdf [exJpgItem ''A'' ''image/png'', exJpgItem ''B'' ''image/png''])\<lparr>dragIndexRef := Some 2\<rparr>)))
     = Inl TypeError"
  by (simp add: PdfMerge_onDrop_def JpgToPdf_onDrop_def exPdfMerge_def exJpgToPdf_def
      onDrop_updater_def splice_def)

section \<open>The output handle is cleared by every mutation\<close>

lemma filterE_total:
  "Undefined \<notin> set xs \<Longrightarrow> filterE (idDiffers i) xs = Inr (filter (\<lambda>x. idDiffers i x = Inr True) xs)"
proof (induction xs)
  case Nil
  then show ?case by simp
next
  case (Cons x xs)
  then show ?case by (cases x) (simp_all add: idDiffers_def)
qed

lemma findById_total:
  "Undefined \<notin> set xs \<Longrightarrow> \<exists>r. findById i xs = Inr r"
proof (induction xs)
  case Nil
  then show ?case by simp
next
  case (Cons x xs)
  then show ?case by (cases x) simp_all
qed

lemma revokeAll_total:
  "Undefined \<notin> set xs \<Longrightarrow> \<exists>us. revokeAll xs = Inr us"
proof (induction xs)
  case Nil
  then show ?case by simp
next
  case (Cons x xs)
  then show ?case by (cases x) auto
qed

text \<open>
  C3. In both tools, admitting files, removing an item and clearing the queue leave the
  output handle cleared, and so does every drop that changes the queue. Removing and
  clearing return normally on every queue that holds no \<open>undefined\<close> element.
\<close>

theorem mutations_clear_output:
  "mergedPdfUrl (PdfMerge_addFiles fb tok fl s) = None
   \<and> (\<forall>s'. PdfMerge_removeItem i s = Inr s' \<longrightarrow> mergedPdfUrl s' = None)
   \<and> (Undefined \<notin> set (items s) \<longrightarrow> (\<exists>s'. PdfMerge_removeItem i s = Inr s'))
   \<and> mergedPdfUrl (PdfMerge_clearAll s) = None
   \<and> (items (PdfMerge_onDrop t s) \<noteq> items s \<longrightarrow> mergedPdfUrl (PdfMerge_onDrop t s) = None)
   \<and> pdfUrl (JpgToPdf_addFiles cu tok' fl' j) = None
   \<and> (\<forall>j'. JpgToPdf_removeItem i' j = Inr j' \<longrightarrow> pdfUrl j' = None)
   \<and> (Undefined \<notin> set (items j) \<longrightarrow> (\<exists>j'. JpgToPdf_removeItem i' j = Inr j'))
   \<and> (\<forall>j'. JpgToPdf_clearAll j = Inr j' \<longrightarrow> pdfUrl j' = None)
   \<and> (Undefined \<notin> set (items j) \<longrightarrow> (\<exists>j'. JpgToPdf_clearAll j = Inr j'))
   \<and> (items (JpgToPdf_onDrop t' j) \<noteq> items j \<longrightarrow> pdfUrl (JpgToPdf_onDrop t' j) = None)"
proof (intro conjI allI impI)
  show "mergedPdfUrl (PdfMerge_addFiles fb tok fl s) = None"
    by (simp add: PdfMerge_addFiles_def Let_def)
  show "mergedPdfUrl s' = None" if "PdfMerge_removeItem i s = Inr s'" for s'
    using that by (auto simp: PdfMerge_removeItem_def Let_def split: sum.splits)
  show "\<exists>s'. PdfMerge_removeItem i s = Inr s'" if "Undefined \<notin> set (items s)"
    using that by (simp add: PdfMerge_removeItem_def Let_def filterE_total)
  show "mergedPdfUrl (PdfMerge_clearAll s) = None"
    by (simp add: PdfMerge_clearAll_def)
  show "mergedPdfUrl (PdfMerge_onDrop t s) = None" if "items (PdfMerge_onDrop t s) \<noteq> items s"
    using that by (auto simp: PdfMerge_onDrop_def Let_def split: option.splits if_splits)
  show "pdfUrl (JpgToPdf_addFiles cu tok' fl' j) = None"
    by (simp add: JpgToPdf_addFiles_def Let_def)
  show "pdfUrl j' = None" if "JpgToPdf_removeItem i' j = Inr j'" for j'
    using that
    by (auto simp: JpgToPdf_removeItem_def Let_def split: sum.splits option.splits)
  show "\<exists>j'. JpgToPdf_removeItem i' j = Inr j'" if u: "Undefined \<notin> set (items j)"
  proof -
    obtain r where "findById i' (items j) = Inr r"
      using findById_total[OF u] by blast
    then show ?thesis
      using u by (cases r) (simp_all add: JpgToPdf_removeItem_def Let_def filterE_total)
  qed
  show "pdfUrl j' = None" if "JpgToPdf_clearAll j = Inr j'" for j'
    using that by (auto simp: JpgToPdf_clearAll_def Let_def split: sum.splits)
  show "\<exists>j'. JpgToPdf_clearAll j = Inr j'" if u: "Undefined \<notin> set (items j)"
  proof -
    obtain us where "revokeAll (items j) = Inr us"
      using revokeAll_total[OF u] by blast
    then show ?thesis by (simp add: JpgToPdf_clearAll_def Let_def)
  qed
  show "pdfUrl (JpgToPdf_onDrop t' j) = None" if "items (JpgToPdf_onDrop t' j) \<noteq> items j"
    using that by (auto simp: JpgToPdf_onDrop_def Let_def split: option.splits if_splits)
qed

theorem mutations_clear_output_witness:
  "mergedPdfUrl exPdfMergeDone \<noteq> None
   \<and> mergedPdfUrl (PdfMerge_addFiles exFormatBytes exToken (Some [exPdfFile ''C.pdf'']) exPdfMergeDone) = None
   \<and> (\<exists>s'. PdfMerge_removeItem ''k-A.pdf'' exPdfMergeDone = Inr s' \<and> mergedPdfUrl s' = None)
   \<and> mergedPdfUrl (PdfMerge_clearAll exPdfMergeDone) = None
   \<and> items (PdfMerge_onDrop 1 exPdfMergeDone) \<noteq> items exPdfMergeDone
   \<and> mergedPdfUrl (PdfMerge_onDrop 1 exPdfMergeDone) = None
   \<and> pdfUrl exJpgToPdfDone \<noteq> None
   \<and> pdfUrl (JpgToPdf_addFiles exToken exToken (Some [exImageFile ''c.png'' ''image/png'']) exJpgToPdfDone) = None
   \<and> (\<exists>j'. JpgToPdf_removeItem ''k-a.png'' exJpgToPdfDone = Inr j' \<and> pdfUrl j' = None)
   \<and> (\<exists>j'. JpgToPdf_clearAll exJpgToPdfDone = Inr j' \<and> pdfUrl j' = None)
   \<and> items (JpgToPdf_onDrop 1 exJpgToPdfDone) \<noteq> items exJpgToPdfDone
   \<and> pdfUrl (JpgToPdf_onDrop 1 exJpgToPdfDone) = None"
proof -
  note w = mutations_clear_output [where s = exPdfMergeDone and j = exJpgToPdfDone
      and t = 1 and t' = 1 and fb = exFormatBytes and tok = exToken and tok' = exToken
      and cu = exToken and fl = "Some [exPdfFile ''C.pdf'']"
      and fl' = "Some [exImageFile ''c.png'' ''image/png'']"
      and i = "''k-A.pdf''" and i' = "''k-a.png''"]
  have u1: "Undefined \<notin> set (items exPdfMergeDone)"
    by (simp add: exPdfMergeDone_def exPdfMerge_def exPdfItem_def)
  have u2: "Undefined \<notin> set (items exJpgToPdfDone)"
    by (simp add: exJpgToPdfDone_def exJpgToPdf_def exJpgItem_def)
  have d1: "items (PdfMerge_onDrop 1 exPdfMergeDone) \<noteq> items exPdfMergeDone"
    by (simp add: exPdfMergeDone_def exPdfMerge_def exPdfItem_def exPdfFile_def
        PdfMerge_onDrop_def onDrop_updater_def splice_def)
  have d2: "items (JpgToPdf_onDrop 1 exJpgToPdfDone) \<noteq> items exJpgToPdfDone"
    by (simp add: exJpgToPdfDone_def exJpgToPdf_def exJpgItem_def exImageFile_def
        JpgToPdf_onDrop_def onDrop_updater_def splice_def)
  have n1: "mergedPdfUrl exPdfMergeDone \<noteq> None"
    by (simp add: exPdfMergeDone_def exPdfMerge_def)
  have n2: "pdfUrl exJpgToPdfDone \<noteq> None"
    by (simp add: exJpgToPdfDone_def exJpgToPdf_def)
  show ?thesis
    using w u1 u2 d1 d2 n1 n2 by blast
qed

section \<open>Admission: validation and capacity\<close>

lemma entryFile_pdf_items:
  "map entryFile (map (\<lambda>(k, f). Item \<lparr>id' = g k f, file = f, sizeLabel = h f\<rparr>) (enumerate m fs))
     = map Some fs"
  by (induction fs arbitrary: m) (simp_all add: entryFile_def)

lemma entryFile_jpg_items:
  "map entryFile (map (\<lambda>(k, f). Item \<lparr>id' = g k f, file = f, previewUrl = h k\<rparr>) (enumerate m fs))
     = map Some fs"
  by (induction fs arbitrary: m) (simp_all add: entryFile_def)

lemma PdfMerge_addFiles_full:
  assumes "incoming \<noteq> []" "15 \<le> length (items s)"
  shows "PdfMerge_addFiles fb tok (Some incoming) s =
           s\<lparr>mergedPdfUrl := None, errorMsg := PdfMerge_maxFilesReached 15\<rparr>"
  using assms by (simp add: PdfMerge_addFiles_def Let_def MAX_FILES_def)

lemma PdfMerge_addFiles_items:
  assumes "length (items s) < 15"
  shows "items (PdfMerge_addFiles fb tok (Some incoming) s) =
           items s @ map (\<lambda>(k, f). Item \<lparr>id' = tok k @ ''-'' @ name f, file = f, sizeLabel = fb (size' f)\<rparr>)
             (enumerate 0 (take (15 - length (items s)) (filter isPdf incoming)))"
  using assms by (simp add: PdfMerge_addFiles_def Let_def MAX_FILES_def nat_diff_distrib')

lemma PdfMerge_addFiles_msg:
  assumes "length (items s) < 15" "incoming \<noteq> []"
  shows "errorMsg (PdfMerge_addFiles fb tok (Some incoming) s) =
           (if 15 - length (items s) < length (filter isPdf incoming) then PdfMerge_someFilesIgnored 15
            else if length (filter isPdf incoming) \<noteq> length incoming then PdfMerge_invalidFileType
            else NoMsg)"
  using assms by (auto simp: PdfMerge_addFiles_def Let_def MAX_FILES_def)

lemma isPdf_exPdfFile: "isPdf (exPdfFile n)"
  by (simp add: isPdf_def exPdfFile_def acceptTypes_def)

lemma not_isPdf_exTextFile: "\<not> isPdf exTextFile"
  by (simp add: isPdf_def exTextFile_def acceptTypes_def endsWith_def toLowerCase_def
      toLowerCase_char_def)

lemma exFullQueue_length: "length (items exFullQueue) = 15"
  by (simp add: exFullQueue_def exPdfMerge_def)

lemma JpgToPdf_addFiles_items:
  "items (JpgToPdf_addFiles cu tok (Some incoming) j) =
     items j @ map (\<lambda>(k, f). Item \<lparr>id' = tok k @ ''-'' @ name f, file = f, previewUrl = cu k\<rparr>)
       (enumerate 0 (filter isImage incoming))"
  by (simp add: JpgToPdf_addFiles_def Let_def)

lemma isImage_png: "isImage (exImageFile n ''image/png'')"
  by (simp add: isImage_def exImageFile_def acceptTypes_J_def)

lemma not_isImage_exTextFile: "\<not> isImage exTextFile"
  by (simp add: isImage_def exTextFile_def acceptTypes_J_def)

text \<open>
  C5 (as amended). For the PDF tool, with \<open>n\<close> items queued: a non-empty incoming batch at
  \<open>n = 15\<close> admits nothing and reports that the maximum is reached; when \<open>n < 15\<close> and
  the valid files of the batch exceed the \<open>15 - n\<close> free slots, exactly the first \<open>15 - n\<close>
  valid files are appended in input order, the queue holds 15 items and the overflow is
  reported; when they fit, all valid files are appended in input order and neither
  capacity condition is reported. An empty batch changes nothing and reports nothing.
\<close>

theorem addFiles_capacity:
  "(incoming \<noteq> [] \<and> length (items s) = 15 \<longrightarrow>
      items (PdfMerge_addFiles fb tok (Some incoming) s) = items s
      \<and> errorMsg (PdfMerge_addFiles fb tok (Some incoming) s) = PdfMerge_maxFilesReached 15)
   \<and> (length (items s) < 15 \<and> 15 - length (items s) < length (filter isPdf incoming) \<longrightarrow>
      (\<exists>new. items (PdfMerge_addFiles fb tok (Some incoming) s) = items s @ new
          \<and> map entryFile new = map Some (take (15 - length (items s)) (filter isPdf incoming)))
      \<and> length (items (PdfMerge_addFiles fb tok (Some incoming) s)) = 15
      \<and> errorMsg (PdfMerge_addFiles fb tok (Some incoming) s) = PdfMerge_someFilesIgnored 15)
   \<and> (length (items s) < 15 \<and> length (filter isPdf incoming) \<le> 15 - length (items s) \<longrightarrow>
      (\<exists>new. items (PdfMerge_addFiles fb tok (Some incoming) s) = items s @ new
          \<and> map entryFile new = map Some (filter isPdf incoming))
      \<and> errorMsg (PdfMerge_addFiles fb tok (Some incoming) s) \<noteq> PdfMerge_someFilesIgnored 15
      \<and> errorMsg (PdfMerge_addFiles fb tok (Some incoming) s) \<noteq> PdfMerge_maxFilesReached 15)
   \<and> items (PdfMerge_addFiles fb tok (Some []) s) = items s
   \<and> errorMsg (PdfMerge_addFiles fb tok (Some []) s) = NoMsg"
proof (intro conjI impI)
  show "items (PdfMerge_addFiles fb tok (Some []) s) = items s"
    by (simp add: PdfMerge_addFiles_def)
  show "errorMsg (PdfMerge_addFiles fb tok (Some []) s) = NoMsg"
    by (simp add: PdfMerge_addFiles_def)
next
  assume a: "incoming \<noteq> [] \<and> length (items s) = 15"
  then show "items (PdfMerge_addFiles fb tok (Some incoming) s) = items s"
    by (simp add: PdfMerge_addFiles_full)
  from a show "errorMsg (PdfMerge_addFiles fb tok (Some incoming) s) = PdfMerge_maxFilesReached 15"
    by (simp add: PdfMerge_addFiles_full)
next
  assume a: "length (items s) < 15 \<and> 15 - length (items s) < length (filter isPdf incoming)"
  then have ne: "incoming \<noteq> []" by auto
  show "\<exists>new. items (PdfMerge_addFiles fb tok (Some incoming) s) = items s @ new
          \<and> map entryFile new = map Some (take (15 - length (items s)) (filter isPdf incoming))"
  proof -
    let ?new = "map (\<lambda>(k, f). Item \<lparr>id' = tok k @ ''-'' @ name f, file = f, sizeLabel = fb (size' f)\<rparr>)
             (enumerate 0 (take (15 - length (items s)) (filter isPdf incoming)))"
    have 1: "items (PdfMerge_addFiles fb tok (Some incoming) s) = items s @ ?new"
      by (rule PdfMerge_addFiles_items) (use a in simp)
    have 2: "map entryFile ?new = map Some (take (15 - length (items s)) (filter isPdf incoming))"
      by (rule entryFile_pdf_items)
    show ?thesis using 1 2 by blast
  qed
  show "length (items (PdfMerge_addFiles fb tok (Some incoming) s)) = 15"
    using a by (simp add: PdfMerge_addFiles_items)
  show "errorMsg (PdfMerge_addFiles fb tok (Some incoming) s) = PdfMerge_someFilesIgnored 15"
    using a ne by (simp add: PdfMerge_addFiles_msg)
next
  assume a: "length (items s) < 15 \<and> length (filter isPdf incoming) \<le> 15 - length (items s)"
  show "\<exists>new. items (PdfMerge_addFiles fb tok (Some incoming) s) = items s @ new
          \<and> map entryFile new = map Some (filter isPdf incoming)"
  proof -
    let ?new = "map (\<lambda>(k, f). Item \<lparr>id' = tok k @ ''-'' @ name f, file = f, sizeLabel = fb (size' f)\<rparr>)
             (enumerate 0 (take (15 - length (items s)) (filter isPdf incoming)))"
    have 0: "take (15 - length (items s)) (filter isPdf incoming) = filter isPdf incoming"
      using a by simp
    have 1: "items (PdfMerge_addFiles fb tok (Some incoming) s) = items s @ ?new"
      by (rule PdfMerge_addFiles_items) (use a in simp)
    have "map entryFile ?new = map Some (take (15 - length (items s)) (filter isPdf incoming))"
      by (rule entryFile_pdf_items)
    then have 2: "map entryFile ?new = map Some (filter isPdf incoming)"
      by (simp only: 0)
    show ?thesis using 1 2 by blast
  qed
  show "errorMsg (PdfMerge_addFiles fb tok (Some incoming) s) \<noteq> PdfMerge_someFilesIgnored 15"
  proof (cases "incoming = []")
    case True
    then show ?thesis by (simp add: PdfMerge_addFiles_def)
  next
    case False
    then show ?thesis using a by (simp add: PdfMerge_addFiles_msg)
  qed
  show "errorMsg (PdfMerge_addFiles fb tok (Some incoming) s) \<noteq> PdfMerge_maxFilesReached 15"
  proof (cases "incoming = []")
    case True
    then show ?thesis by (simp add: PdfMerge_addFiles_def)
  next
    case False
    then show ?thesis using a by (simp add: PdfMerge_addFiles_msg)
  qed
qed

theorem addFiles_capacity_witness:
  "items (PdfMerge_addFiles exFormatBytes exToken (Some [exPdfFile ''new.pdf'']) exFullQueue)
     = items exFullQueue
   \<and> errorMsg (PdfMerge_addFiles exFormatBytes exToken (Some [exPdfFile ''new.pdf'']) exFullQueue)
     = PdfMerge_maxFilesReached 15
   \<and> length (items (PdfMerge_addFiles exFormatBytes exToken
        (Some [exPdfFile ''x.pdf'', exTextFile, exPdfFile ''y.pdf'']) exAlmostFullQueue)) = 15
   \<and> (\<exists>new. items (PdfMerge_addFiles exFormatBytes exToken
        (Some [exPdfFile ''x.pdf'', exTextFile, exPdfFile ''y.pdf'']) exAlmostFullQueue)
          = items exAlmostFullQueue @ new \<and> map entryFile new = [Some (exPdfFile ''x.pdf'')])
   \<and> errorMsg (PdfMerge_addFiles exFormatBytes exToken
        (Some [exPdfFile ''x.pdf'', exTextFile, exPdfFile ''y.pdf'']) exAlmostFullQueue)
     = PdfMerge_someFilesIgnored 15
   \<and> (\<exists>new. items (PdfMerge_addFiles exFormatBytes exToken
        (Some [exPdfFile ''x.pdf'', exTextFile, exPdfFile ''y.pdf'']) exPdfMergeDone)
          = items exPdfMergeDone @ new
          \<and> map entryFile new = [Some (exPdfFile ''x.pdf''), Some (exPdfFile ''y.pdf'')])"
proof -
  have l15: "length (items exFullQueue) = 15"
    by (simp add: exFullQueue_def exPdfMerge_def)
  have l14: "length (items exAlmostFullQueue) = 14"
    by (simp add: exAlmostFullQueue_def exPdfMerge_def)
  have l2: "length (items exPdfMergeDone) = 2"
    by (simp add: exPdfMergeDone_def exPdfMerge_def)
  have v: "filter isPdf [exPdfFile ''x.pdf'', exTextFile, exPdfFile ''y.pdf'']
             = [exPdfFile ''x.pdf'', exPdfFile ''y.pdf'']"
    by (simp add: isPdf_exPdfFile not_isPdf_exTextFile)
  note w1 = addFiles_capacity [of "[exPdfFile ''new.pdf'']" exFullQueue exFormatBytes exToken,
      unfolded l15]
  note w2 = addFiles_capacity [of "[exPdfFile ''x.pdf'', exTextFile, exPdfFile ''y.pdf'']"
      exAlmostFullQueue exFormatBytes exToken, unfolded v l14]
  note w3 = addFiles_capacity [of "[exPdfFile ''x.pdf'', exTextFile, exPdfFile ''y.pdf'']"
      exPdfMergeDone exFormatBytes exToken, unfolded v l2]
  show ?thesis
    using w1 w2 w3 by simp
qed

text \<open>
  C5 as stated fails for the empty batch: \<open>addFiles\<close> returns before the capacity test,
  so a full queue reports nothing.
\<close>

theorem empty_batch_at_cap_reports_nothing:
  "length (items exFullQueue) = 15
   \<and> items (PdfMerge_addFiles exFormatBytes exToken (Some []) exFullQueue) = items exFullQueue
   \<and> errorMsg (PdfMerge_addFiles exFormatBytes exToken (Some []) exFullQueue) = NoMsg
   \<and> errorMsg (PdfMerge_addFiles exFormatBytes exToken (Some []) exFullQueue)
        \<noteq> PdfMerge_maxFilesReached MAX_FILES"
  by (simp add: exFullQueue_length PdfMerge_addFiles_def)

text \<open>
  C9 (as amended). A batch with valid and invalid files whose valid files fit into the
  free slots of the PDF tool is admitted in its valid part, in input order, with the
  invalid-type condition reported. The image tool rejects a non-empty batch with the
  invalid-type condition exactly when none of its files passes; otherwise it appends the
  valid part in input order and reports nothing. Its queue is unchanged exactly when no
  file of the batch is valid.
\<close>

theorem validation_asymmetry:
  "((\<exists>f\<in>set incoming. isPdf f) \<and> (\<exists>f\<in>set incoming. \<not> isPdf f)
      \<and> length (items s) + length (filter isPdf incoming) \<le> 15 \<longrightarrow>
      (\<exists>new. items (PdfMerge_addFiles fb tok (Some incoming) s) = items s @ new
          \<and> map entryFile new = map Some (filter isPdf incoming))
      \<and> errorMsg (PdfMerge_addFiles fb tok (Some incoming) s) = PdfMerge_invalidFileType)
   \<and> (incoming' \<noteq> [] \<and> filter isImage incoming' = [] \<longrightarrow>
      items (JpgToPdf_addFiles cu tok' (Some incoming') j) = items j
      \<and> errorMsg (JpgToPdf_addFiles cu tok' (Some incoming') j) = JpgToPdf_invalidFileType)
   \<and> (filter isImage incoming' \<noteq> [] \<longrightarrow>
      (\<exists>new. items (JpgToPdf_addFiles cu tok' (Some incoming') j) = items j @ new
          \<and> map entryFile new = map Some (filter isImage incoming'))
      \<and> errorMsg (JpgToPdf_addFiles cu tok' (Some incoming') j) = NoMsg)
   \<and> (items (JpgToPdf_addFiles cu tok' (Some incoming') j) = items j
        \<longleftrightarrow> filter isImage incoming' = [])"
proof (intro conjI impI)
  assume a: "(\<exists>f\<in>set incoming. isPdf f) \<and> (\<exists>f\<in>set incoming. \<not> isPdf f)
      \<and> length (items s) + length (filter isPdf incoming) \<le> 15"
  then have ne: "incoming \<noteq> []" by auto
  have "filter isPdf incoming \<noteq> []"
    using a by (auto simp: filter_empty_conv)
  then have pos: "0 < length (filter isPdf incoming)" by simp
  obtain f where "f \<in> set incoming" "\<not> isPdf f"
    using a by blast
  then have "length (filter isPdf incoming) < length incoming"
    by (rule length_filter_less)
  then have neq: "length (filter isPdf incoming) \<noteq> length incoming"
    by simp
  have room: "length (items s) < 15 \<and> length (filter isPdf incoming) \<le> 15 - length (items s)"
    using a pos by linarith
  let ?new = "map (\<lambda>(k, f). Item \<lparr>id' = tok k @ ''-'' @ name f, file = f, sizeLabel = fb (size' f)\<rparr>)
             (enumerate 0 (take (15 - length (items s)) (filter isPdf incoming)))"
  have 0: "take (15 - length (items s)) (filter isPdf incoming) = filter isPdf incoming"
    using room by simp
  have 1: "items (PdfMerge_addFiles fb tok (Some incoming) s) = items s @ ?new"
    by (rule PdfMerge_addFiles_items) (use room in simp)
  have "map entryFile ?new = map Some (take (15 - length (items s)) (filter isPdf incoming))"
    by (rule entryFile_pdf_items)
  then have 2: "map entryFile ?new = map Some (filter isPdf incoming)"
    by (simp only: 0)
  show "\<exists>new. items (PdfMerge_addFiles fb tok (Some incoming) s) = items s @ new
          \<and> map entryFile new = map Some (filter isPdf incoming)"
    using 1 2 by blast
  show "errorMsg (PdfMerge_addFiles fb tok (Some incoming) s) = PdfMerge_invalidFileType"
    using room ne neq by (simp add: PdfMerge_addFiles_msg)
next
  assume a: "incoming' \<noteq> [] \<and> filter isImage incoming' = []"
  then show "items (JpgToPdf_addFiles cu tok' (Some incoming') j) = items j"
    by (simp add: JpgToPdf_addFiles_def)
  from a show "errorMsg (JpgToPdf_addFiles cu tok' (Some incoming') j) = JpgToPdf_invalidFileType"
    by (simp add: JpgToPdf_addFiles_def)
next
  assume a: "filter isImage incoming' \<noteq> []"
  let ?new = "map (\<lambda>(k, f). Item \<lparr>id' = tok' k @ ''-'' @ name f, file = f, previewUrl = cu k\<rparr>)
       (enumerate 0 (filter isImage incoming'))"
  have 1: "items (JpgToPdf_addFiles cu tok' (Some incoming') j) = items j @ ?new"
    by (rule JpgToPdf_addFiles_items)
  have 2: "map entryFile ?new = map Some (filter isImage incoming')"
    by (rule entryFile_jpg_items)
  show "\<exists>new. items (JpgToPdf_addFiles cu tok' (Some incoming') j) = items j @ new
          \<and> map entryFile new = map Some (filter isImage incoming')"
    using 1 2 by blast
  show "errorMsg (JpgToPdf_addFiles cu tok' (Some incoming') j) = NoMsg"
    using a by (simp add: JpgToPdf_addFiles_def Let_def)
next
  show "items (JpgToPdf_addFiles cu tok' (Some incoming') j) = items j
        \<longleftrightarrow> filter isImage incoming' = []"
    by (cases "filter isImage incoming'") (simp_all add: JpgToPdf_addFiles_items)
qed

theorem validation_asymmetry_witness:
  "(\<exists>new. items (PdfMerge_addFiles exFormatBytes exToken
        (Some [exPdfFile ''x.pdf'', exTextFile, exPdfFile ''y.pdf'']) exPdfMergeDone)
          = items exPdfMergeDone @ new
          \<and> map entryFile new = [Some (exPdfFile ''x.pdf''), Some (exPdfFile ''y.pdf'')])
   \<and> errorMsg (PdfMerge_addFiles exFormatBytes exToken
        (Some [exPdfFile ''x.pdf'', exTextFile, exPdfFile ''y.pdf'']) exPdfMergeDone)
       = PdfMerge_invalidFileType
   \<and> items (JpgToPdf_addFiles exToken exToken (Some [exTextFile]) exJpgToPdfDone)
       = items exJpgToPdfDone
   \<and> errorMsg (JpgToPdf_addFiles exToken exToken (Some [exTextFile]) exJpgToPdfDone)
       = JpgToPdf_invalidFileType
   \<and> (\<exists>new. items (JpgToPdf_addFiles exToken exToken
        (Some [exTextFile, exImageFile ''c.png'' ''image/png'']) exJpgToPdfDone)
          = items exJpgToPdfDone @ new
          \<and> map entryFile new = [Some (exImageFile ''c.png'' ''image/png'')])
   \<and> errorMsg (JpgToPdf_addFiles exToken exToken
        (Some [exTextFile, exImageFile ''c.png'' ''image/png'']) exJpgToPdfDone) = NoMsg"
proof -
  have l2: "length (items exPdfMergeDone) = 2"
    by (simp add: exPdfMergeDone_def exPdfMerge_def)
  have v: "filter isPdf [exPdfFile ''x.pdf'', exTextFile, exPdfFile ''y.pdf'']
             = [exPdfFile ''x.pdf'', exPdfFile ''y.pdf'']"
    by (simp add: isPdf_exPdfFile not_isPdf_exTextFile)
  have m: "(\<exists>f\<in>set [exPdfFile ''x.pdf'', exTextFile, exPdfFile ''y.pdf'']. isPdf f)
           \<and> (\<exists>f\<in>set [exPdfFile ''x.pdf'', exTextFile, exPdfFile ''y.pdf'']. \<not> isPdf f)"
    by (simp add: isPdf_exPdfFile not_isPdf_exTextFile)
  have i1: "filter isImage [exTextFile] = []"
    by (simp add: not_isImage_exTextFile)
  have i2: "filter isImage [exTextFile, exImageFile ''c.png'' ''image/png'']
              = [exImageFile ''c.png'' ''image/png'']"
    by (simp add: not_isImage_exTextFile isImage_png)
  note w1 = validation_asymmetry [where incoming = "[exPdfFile ''x.pdf'', exTextFile, exPdfFile ''y.pdf'']"
      and s = exPdfMergeDone and fb = exFormatBytes and tok = exToken and tok' = exToken
      and cu = exToken and j = exJpgToPdfDone and incoming' = "[exTextFile]", unfolded v l2 i1]
  note w2 = validation_asymmetry [where incoming = "[exPdfFile ''x.pdf'', exTextFile, exPdfFile ''y.pdf'']"
      and s = exPdfMergeDone and fb = exFormatBytes and tok = exToken and tok' = exToken
      and cu = exToken and j = exJpgToPdfDone
      and incoming' = "[exTextFile, exImageFile ''c.png'' ''image/png'']", unfolded v l2 i2]
  show ?thesis
    using w1 w2 m by simp
qed

text \<open>
  C9 as stated fails at the capacity gate: a mixed batch offered to a full queue is not
  admitted in its valid part, and the message is the one of the cap.
\<close>

theorem mixed_batch_at_cap_admits_nothing:
  "isPdf (exPdfFile ''new.pdf'') \<and> \<not> isPdf exTextFile
   \<and> items (PdfMerge_addFiles exFormatBytes exToken (Some [exPdfFile ''new.pdf'', exTextFile]) exFullQueue)
       = items exFullQueue
   \<and> errorMsg (PdfMerge_addFiles exFormatBytes exToken (Some [exPdfFile ''new.pdf'', exTextFile]) exFullQueue)
       = PdfMerge_maxFilesReached 15
   \<and> errorMsg (PdfMerge_addFiles exFormatBytes exToken (Some [exPdfFile ''new.pdf'', exTextFile]) exFullQueue)
       \<noteq> PdfMerge_invalidFileType"
  by (simp add: isPdf_exPdfFile not_isPdf_exTextFile PdfMerge_addFiles_full exFullQueue_length)

section \<open>The merge run\<close>

lemma copyPages_all: "copyPages d (getPageIndices d) = d"
  by (simp add: copyPages_def getPageIndices_def map_nth)

lemma foldl_addPage: "foldl addPage out ps = out @ ps"
  by (induction ps arbitrary: out) (simp_all add: addPage_def)

lemma mergeLoop_done:
  "length (items s) \<le> i \<Longrightarrow> PdfMerge_mergeLoop ab ld i out s tr = (Inr out, s, tr)"
  by (simp add: PdfMerge_mergeLoop.simps[of ab ld i out s tr])

lemma mergeLoop_step:
  assumes "i < length (items s)" "parsed ab ld (items s ! i) = Some d"
  shows "PdfMerge_mergeLoop ab ld i out s tr =
           PdfMerge_mergeLoop ab ld (Suc i) (out @ d) (s\<lparr>progress := (Suc i, length (items s))\<rparr>)
             (tr @ mergeEffects (length (items s)) i)"
proof -
  obtain it b where "items s ! i = Item it" "ab (file it) = Some b" "ld b = Some d"
    using assms(2) by (auto simp: parsed_def split: slot.splits option.splits)
  then show ?thesis
    using assms(1)
    by (simp add: PdfMerge_mergeLoop.simps[of ab ld i out s tr] copyPages_all
          foldl_addPage mergeEffects_def)
qed

lemma mergeLoop_fail:
  assumes "i < length (items s)" "parsed ab ld (items s ! i) = None"
  shows "\<exists>e stub. PdfMerge_mergeLoop ab ld i out s tr = (Inl e, s, tr @ stub)
            \<and> stub \<in> {[], [ArrayBuffer i], [ArrayBuffer i, Load i]}"
proof -
  consider "items s ! i = Undefined"
    | it where "items s ! i = Item it" "ab (file it) = None"
    | it b where "items s ! i = Item it" "ab (file it) = Some b" "ld b = None"
    using assms(2) by (auto simp: parsed_def split: slot.splits option.splits)
  then show ?thesis
    using assms(1)
    by cases (simp_all add: PdfMerge_mergeLoop.simps[of ab ld i out s tr])
qed

lemma mergeLoop_prefix:
  assumes "length docs \<le> length (items s)"
    and "\<forall>j<length docs. parsed ab ld (items s ! j) = Some (docs ! j)"
    and "progress s = (0, length (items s))"
  shows "PdfMerge_mergeLoop ab ld 0 out s tr =
           PdfMerge_mergeLoop ab ld (length docs) (out @ concat docs)
             (s\<lparr>progress := (length docs, length (items s))\<rparr>)
             (tr @ concat (map (mergeEffects (length (items s))) [0..<length docs]))"
  using assms
proof (induction docs rule: rev_induct)
  case Nil
  have "s\<lparr>progress := (0, length (items s))\<rparr> = s"
    using Nil.prems(3) by (metis pdfMerge.surjective pdfMerge.update_convs(3))
  then show ?case by simp
next
  case (snoc d docs)
  let ?n = "length (items s)"
  let ?s = "s\<lparr>progress := (length docs, ?n)\<rparr>"
  have len: "length docs < ?n" using snoc.prems(1) by simp
  have pre: "\<forall>j<length docs. parsed ab ld (items s ! j) = Some (docs ! j)"
  proof (intro allI impI)
    fix j assume j: "j < length docs"
    then have "parsed ab ld (items s ! j) = Some ((docs @ [d]) ! j)"
      using snoc.prems(2) by simp
    then show "parsed ab ld (items s ! j) = Some (docs ! j)"
      using j by (simp add: nth_append)
  qed
  have last: "parsed ab ld (items ?s ! length docs) = Some d"
    using snoc.prems(2) by simp
  have "PdfMerge_mergeLoop ab ld 0 out s tr =
          PdfMerge_mergeLoop ab ld (length docs) (out @ concat docs) ?s
            (tr @ concat (map (mergeEffects ?n) [0..<length docs]))"
    using snoc.IH len pre snoc.prems(3) by simp
  also have "\<dots> = PdfMerge_mergeLoop ab ld (Suc (length docs)) ((out @ concat docs) @ d)
            (?s\<lparr>progress := (Suc (length docs), length (items ?s))\<rparr>)
            ((tr @ concat (map (mergeEffects ?n) [0..<length docs])) @ mergeEffects (length (items ?s)) (length docs))"
    using len last by (intro mergeLoop_step) simp_all
  finally show ?case by simp
qed

lemma readable_docs:
  defines "docs \<equiv> \<lambda>ab ld its. map (\<lambda>x. the (parsed ab ld x)) (readable ab ld its)"
  shows "length (docs ab ld its) = length (readable ab ld its)"
    and "length (readable ab ld its) \<le> length its"
    and "\<forall>j<length (docs ab ld its). parsed ab ld (its ! j) = Some (docs ab ld its ! j)"
proof -
  show "length (docs ab ld its) = length (readable ab ld its)"
    by (simp add: docs_def)
  show "length (readable ab ld its) \<le> length its"
    by (simp add: readable_def length_takeWhile_le)
  show "\<forall>j<length (docs ab ld its). parsed ab ld (its ! j) = Some (docs ab ld its ! j)"
  proof (intro allI impI)
    fix j assume j: "j < length (docs ab ld its)"
    then have j': "j < length (readable ab ld its)" by (simp add: docs_def)
    then have eq: "readable ab ld its ! j = its ! j"
      unfolding readable_def by (rule takeWhile_nth)
    have "readable ab ld its ! j \<in> set (readable ab ld its)"
      using j' by simp
    then have "parsed ab ld (readable ab ld its ! j) \<noteq> None"
      unfolding readable_def by (auto dest: set_takeWhileD)
    then show "parsed ab ld (its ! j) = Some (docs ab ld its ! j)"
      using j' eq by (auto simp: docs_def)
  qed
qed

lemma readable_stops:
  assumes "length (readable ab ld its) < length its"
  shows "parsed ab ld (its ! length (readable ab ld its)) = None"
  using nth_length_takeWhile[of "\<lambda>x. parsed ab ld x \<noteq> None" its] assms
  by (simp add: readable_def)

lemma readable_all:
  assumes "\<forall>x\<in>set its. parsed ab ld x \<noteq> None"
  shows "readable ab ld its = its"
  using assms by (simp add: readable_def)

lemma readable_some_bad:
  assumes "\<exists>x\<in>set its. parsed ab ld x = None"
  shows "length (readable ab ld its) < length its"
proof (rule ccontr)
  let ?P = "\<lambda>x. parsed ab ld x \<noteq> None"
  assume "\<not> length (readable ab ld its) < length its"
  moreover have "length (takeWhile ?P its) \<le> length its"
    by (rule length_takeWhile_le)
  ultimately have eq: "length (takeWhile ?P its) = length its"
    by (simp add: readable_def)
  have "length (takeWhile ?P its) + length (dropWhile ?P its) = length its"
    by (simp only: length_append[symmetric] takeWhile_dropWhile_id)
  then have "length (dropWhile ?P its) = 0"
    using eq by linarith
  then have "dropWhile ?P its = []"
    by (simp only: length_0_conv)
  then have "\<forall>x\<in>set its. ?P x"
    by simp
  then show False using assms by blast
qed

text \<open>The whole loop, from a state whose progress was just reset.\<close>

lemma mergeLoop_run:
  fixes s :: pdfMerge and ab ld
  defines "n \<equiv> length (items s)"
  defines "k \<equiv> length (readable ab ld (items s))"
  defines "docs \<equiv> map (\<lambda>x. the (parsed ab ld x)) (readable ab ld (items s))"
  assumes p0: "progress s = (0, n)"
  shows "k = n \<Longrightarrow> PdfMerge_mergeLoop ab ld 0 [] s tr =
            (Inr (concat docs), s\<lparr>progress := (n, n)\<rparr>, tr @ concat (map (mergeEffects n) [0..<n]))"
    and "k < n \<Longrightarrow> \<exists>e stub. PdfMerge_mergeLoop ab ld 0 [] s tr =
            (Inl e, s\<lparr>progress := (k, n)\<rparr>, tr @ concat (map (mergeEffects n) [0..<k]) @ stub)
            \<and> stub \<in> {[], [ArrayBuffer k], [ArrayBuffer k, Load k]}"
proof -
  have ld: "length docs = k" by (simp add: docs_def k_def)
  have kn: "k \<le> n" unfolding k_def n_def by (rule readable_docs(2))
  have good: "\<forall>j<length docs. parsed ab ld (items s ! j) = Some (docs ! j)"
    unfolding docs_def by (rule readable_docs(3))
  have pre: "PdfMerge_mergeLoop ab ld 0 [] s tr =
           PdfMerge_mergeLoop ab ld k (concat docs) (s\<lparr>progress := (k, n)\<rparr>)
             (tr @ concat (map (mergeEffects n) [0..<k]))"
    using mergeLoop_prefix[of docs s ab ld "[]" tr] ld kn good p0 by (simp add: n_def)
  show "PdfMerge_mergeLoop ab ld 0 [] s tr =
            (Inr (concat docs), s\<lparr>progress := (n, n)\<rparr>, tr @ concat (map (mergeEffects n) [0..<n]))"
    if "k = n"
    using that pre by (simp add: mergeLoop_done n_def)
  show "\<exists>e stub. PdfMerge_mergeLoop ab ld 0 [] s tr =
            (Inl e, s\<lparr>progress := (k, n)\<rparr>, tr @ concat (map (mergeEffects n) [0..<k]) @ stub)
            \<and> stub \<in> {[], [ArrayBuffer k], [ArrayBuffer k, Load k]}"
    if "k < n"
  proof -
    have bad: "parsed ab ld (items (s\<lparr>progress := (k, n)\<rparr>) ! k) = None"
      using that readable_stops[of ab ld "items s"] by (simp add: k_def n_def)
    have "k < length (items (s\<lparr>progress := (k, n)\<rparr>))" using that by (simp add: n_def)
    from mergeLoop_fail[OF this bad, of "concat docs" "tr @ concat (map (mergeEffects n) [0..<k])"]
    obtain e stub where
      h1: "PdfMerge_mergeLoop ab ld k (concat docs) (s\<lparr>progress := (k, n)\<rparr>)
         (tr @ concat (map (mergeEffects n) [0..<k])) =
       (Inl e, s\<lparr>progress := (k, n)\<rparr>, (tr @ concat (map (mergeEffects n) [0..<k])) @ stub)"
      and h2: "stub \<in> {[], [ArrayBuffer k], [ArrayBuffer k, Load k]}"
      by (elim exE conjE)
    have "PdfMerge_mergeLoop ab ld 0 [] s tr =
            (Inl e, s\<lparr>progress := (k, n)\<rparr>, (tr @ concat (map (mergeEffects n) [0..<k])) @ stub)"
      using pre h1 by (rule trans)
    then have h3: "PdfMerge_mergeLoop ab ld 0 [] s tr =
            (Inl e, s\<lparr>progress := (k, n)\<rparr>, tr @ concat (map (mergeEffects n) [0..<k]) @ stub)"
      by (simp only: append_assoc)
    show ?thesis
      by (rule exI[of _ e], rule exI[of _ stub], rule conjI, rule h3, rule h2)
  qed
qed

text \<open>\<open>mergePdfs\<close> on a queue of at least two entries, in closed form: the run succeeds when
  every entry reads and parses, and fails at the first entry that does not.\<close>

lemma mergePdfs_run:
  fixes s :: pdfMerge and ab ld
  defines "n \<equiv> length (items s)"
  defines "k \<equiv> length (readable ab ld (items s))"
  defines "docs \<equiv> map (\<lambda>x. the (parsed ab ld x)) (readable ab ld (items s))"
  assumes n2: "2 \<le> n"
  shows "k = n \<Longrightarrow> mergePdfs ab ld s =
            (s\<lparr>errorMsg := NoMsg, mergedPdfUrl := Some (concat docs), isMerging := False,
               progress := (n, n)\<rparr>,
             SetProgress 0 n # concat (map (mergeEffects n) [0..<n]))"
    and "k < n \<Longrightarrow> \<exists>stub. mergePdfs ab ld s =
            (s\<lparr>errorMsg := PdfMerge_mergeFailed, mergedPdfUrl := None, isMerging := False,
               progress := (k, n)\<rparr>,
             SetProgress 0 n # concat (map (mergeEffects n) [0..<k]) @ stub)
            \<and> stub \<in> {[], [ArrayBuffer k], [ArrayBuffer k, Load k]}"
proof -
  define s2 where "s2 = s\<lparr>errorMsg := NoMsg, mergedPdfUrl := None, isMerging := True, progress := (0, n)\<rparr>"
  have its: "items s2 = items s" by (simp add: s2_def)
  have p0: "progress s2 = (0, length (items s2))" by (simp add: s2_def n_def)
  have unfold: "mergePdfs ab ld s =
      (case PdfMerge_mergeLoop ab ld 0 [] s2 [SetProgress 0 n] of
         (Inr outPdf, s3, tr) \<Rightarrow> (s3\<lparr>mergedPdfUrl := Some outPdf, isMerging := False\<rparr>, tr)
       | (Inl err, s3, tr) \<Rightarrow> (s3\<lparr>errorMsg := PdfMerge_mergeFailed, isMerging := False\<rparr>, tr))"
    using n2 by (simp add: mergePdfs_def Let_def s2_def n_def)
  show "mergePdfs ab ld s =
            (s\<lparr>errorMsg := NoMsg, mergedPdfUrl := Some (concat docs), isMerging := False,
               progress := (n, n)\<rparr>,
             SetProgress 0 n # concat (map (mergeEffects n) [0..<n]))" if kn: "k = n"
  proof -
    have eq: "length (readable ab ld (items s2)) = length (items s2)"
      using kn by (simp add: its k_def n_def)
    have "PdfMerge_mergeLoop ab ld 0 [] s2 [SetProgress 0 n] =
            (Inr (concat docs), s2\<lparr>progress := (n, n)\<rparr>,
             [SetProgress 0 n] @ concat (map (mergeEffects n) [0..<n]))"
      using mergeLoop_run(1)[OF p0 eq, where tr = "[SetProgress 0 n]"]
      unfolding its docs_def n_def .
    then show ?thesis
      by (simp add: unfold s2_def)
  qed
  show "\<exists>stub. mergePdfs ab ld s =
            (s\<lparr>errorMsg := PdfMerge_mergeFailed, mergedPdfUrl := None, isMerging := False,
               progress := (k, n)\<rparr>,
             SetProgress 0 n # concat (map (mergeEffects n) [0..<k]) @ stub)
            \<and> stub \<in> {[], [ArrayBuffer k], [ArrayBuffer k, Load k]}" if kn: "k < n"
  proof -
    have lt: "length (readable ab ld (items s2)) < length (items s2)"
      using kn by (simp add: its k_def n_def)
    have "\<exists>e stub. PdfMerge_mergeLoop ab ld 0 [] s2 [SetProgress 0 n] =
            (Inl e, s2\<lparr>progress := (k, n)\<rparr>,
             [SetProgress 0 n] @ concat (map (mergeEffects n) [0..<k]) @ stub)
            \<and> stub \<in> {[], [ArrayBuffer k], [ArrayBuffer k, Load k]}"
      using mergeLoop_run(2)[OF p0 lt, where tr = "[SetProgress 0 n]"]
      unfolding its k_def n_def .
    then obtain e stub where
      h1: "PdfMerge_mergeLoop ab ld 0 [] s2 [SetProgress 0 n] =
            (Inl e, s2\<lparr>progress := (k, n)\<rparr>,
             [SetProgress 0 n] @ concat (map (mergeEffects n) [0..<k]) @ stub)"
      and h2: "stub \<in> {[], [ArrayBuffer k], [ArrayBuffer k, Load k]}"
      by (elim exE conjE)
    have "mergePdfs ab ld s =
            (s\<lparr>errorMsg := PdfMerge_mergeFailed, mergedPdfUrl := None, isMerging := False,
               progress := (k, n)\<rparr>,
             SetProgress 0 n # concat (map (mergeEffects n) [0..<k]) @ stub)"
      by (simp only: unfold h1) (simp add: s2_def)
    then show ?thesis using h2 by (intro exI[of _ stub] conjI)
  qed
qed

lemma filter_mergeEffects:
  "filter isSetProgress (concat (map (mergeEffects n) [0..<k])) = map (\<lambda>j. SetProgress (Suc j) n) [0..<k]"
  by (induction k) (simp_all add: mergeEffects_def)

lemma progress_list:
  "map (\<lambda>c. SetProgress c n) [0..<Suc k] = SetProgress 0 n # map (\<lambda>j. SetProgress (Suc j) n) [0..<k]"
proof -
  have "[0..<Suc k] = 0 # map Suc [0..<k]"
    by (simp only: map_Suc_upt upt_conv_Cons[OF zero_less_Suc])
  then show ?thesis by (simp only: list.map map_map comp_def)
qed

lemma all_parsed_readable:
  assumes "length docs = length its" "\<forall>k<length its. parsed ab ld (its ! k) = Some (docs ! k)"
  shows "readable ab ld its = its" and "map (\<lambda>x. the (parsed ab ld x)) its = docs"
proof -
  have "\<forall>x\<in>set its. parsed ab ld x \<noteq> None"
    using assms(2) by (auto simp: in_set_conv_nth)
  then show "readable ab ld its = its" by (rule readable_all)
  show "map (\<lambda>x. the (parsed ab ld x)) its = docs"
    using assms by (intro nth_equalityI) simp_all
qed

text \<open>
  C1. When the queue holds at least two entries and every entry reads and parses, the
  source documents being \<open>docs\<close> in queue order, the run publishes one output document
  whose pages are the pages of the source documents, each in its internal order,
  concatenated in queue order; its page count is the sum of theirs. No error is reported
  and the queue is unchanged.
\<close>

theorem merge_concatenates_pages:
  assumes "2 \<le> length (items s)"
    and "length docs = length (items s)"
    and "\<forall>k<length (items s). parsed ab ld (items s ! k) = Some (docs ! k)"
  shows "mergedPdfUrl (fst (mergePdfs ab ld s)) = Some (concat docs)
         \<and> length (concat docs) = sum_list (map length docs)
         \<and> errorMsg (fst (mergePdfs ab ld s)) = NoMsg
         \<and> items (fst (mergePdfs ab ld s)) = items s"
proof -
  note r = all_parsed_readable[OF assms(2,3)]
  have "length (readable ab ld (items s)) = length (items s)"
    by (simp only: r(1))
  from mergePdfs_run(1)[OF assms(1) this]
  have "mergePdfs ab ld s =
          (s\<lparr>errorMsg := NoMsg, mergedPdfUrl := Some (concat docs), isMerging := False,
             progress := (length (items s), length (items s))\<rparr>,
           SetProgress 0 (length (items s)) #
             concat (map (mergeEffects (length (items s))) [0..<length (items s)]))"
    by (simp only: r)
  then show ?thesis by (simp add: length_concat)
qed

theorem merge_concatenates_pages_witness:
  "mergedPdfUrl (fst (mergePdfs exArrayBuffer exLoad (exPdfMerge [exPdfItem ''A.pdf'', exPdfItem ''B.pdf''])))
     = Some [Page ''A1'', Page ''A2'', Page ''A3'', Page ''B1'']
   \<and> length [Page ''A1'', Page ''A2'', Page ''A3'', Page ''B1''] = 3 + (1::nat)"
proof -
  have p: "\<forall>k<length (items (exPdfMerge [exPdfItem ''A.pdf'', exPdfItem ''B.pdf''])).
        parsed exArrayBuffer exLoad (items (exPdfMerge [exPdfItem ''A.pdf'', exPdfItem ''B.pdf'']) ! k)
          = Some ([[Page ''A1'', Page ''A2'', Page ''A3''], [Page ''B1'']] ! k)"
    by (simp add: exPdfMerge_def exPdfItem_def exPdfFile_def parsed_def exArrayBuffer_def
        exLoad_def less_Suc_eq numeral_2_eq_2)
  show ?thesis
    using merge_concatenates_pages [of "exPdfMerge [exPdfItem ''A.pdf'', exPdfItem ''B.pdf'']"
        "[[Page ''A1'', Page ''A2'', Page ''A3''], [Page ''B1'']]" exArrayBuffer exLoad] p
    by (simp add: exPdfMerge_def)
qed

text \<open>
  C7. In a merge run over \<open>n \<ge> 2\<close> entries of which the first \<open>k\<close> read and parse (all of
  them, or up to the first failure), the calls of \<open>setProgress\<close> are, in this order, the
  reset to \<open>0\<close> and then \<open>1, 2, \<dots>, k\<close>, each with total \<open>n\<close>, and the counter ends at
  \<open>k\<close>. When every entry reads and parses, the effects of the whole run are the reset
  followed, for each index in queue order, by the read of that item, its parse and the
  update of the counter to the number of items completed.
\<close>

theorem progress_updates_in_order:
  assumes "2 \<le> length (items s)"
  shows "filter isSetProgress (snd (mergePdfs ab ld s))
           = map (\<lambda>c. SetProgress c (length (items s))) [0..<Suc (length (readable ab ld (items s)))]
         \<and> progress (fst (mergePdfs ab ld s)) = (length (readable ab ld (items s)), length (items s))
         \<and> length (readable ab ld (items s)) \<le> length (items s)
         \<and> ((\<forall>x\<in>set (items s). parsed ab ld x \<noteq> None) \<longrightarrow>
              snd (mergePdfs ab ld s) =
                SetProgress 0 (length (items s)) #
                  concat (map (\<lambda>j. [ArrayBuffer j, Load j, SetProgress (j + 1) (length (items s))])
                    [0..<length (items s)]))"
proof -
  let ?n = "length (items s)"
  let ?k = "length (readable ab ld (items s))"
  have kn: "?k \<le> ?n" by (rule readable_docs(2))
  have full: "snd (mergePdfs ab ld s) =
                SetProgress 0 ?n # concat (map (\<lambda>j. [ArrayBuffer j, Load j, SetProgress (j + 1) ?n]) [0..<?n])"
    if "\<forall>x\<in>set (items s). parsed ab ld x \<noteq> None"
  proof -
    have "?k = ?n" using readable_all[OF that] by simp
    from mergePdfs_run(1)[OF assms this, of] show ?thesis
      by (simp add: mergeEffects_def[abs_def])
  qed
  have main: "filter isSetProgress (snd (mergePdfs ab ld s)) = map (\<lambda>c. SetProgress c ?n) [0..<Suc ?k]
              \<and> progress (fst (mergePdfs ab ld s)) = (?k, ?n)"
  proof (cases "?k = ?n")
    case True
    from mergePdfs_run(1)[OF assms True] show ?thesis
      by (simp only: snd_conv fst_conv filter.simps isSetProgress.simps if_True
            filter_mergeEffects progress_list True) simp
  next
    case False
    then have "?k < ?n" using kn by simp
    from mergePdfs_run(2)[OF assms this] obtain stub where
      r: "mergePdfs ab ld s =
            (s\<lparr>errorMsg := PdfMerge_mergeFailed, mergedPdfUrl := None, isMerging := False,
               progress := (?k, ?n)\<rparr>,
             SetProgress 0 ?n # concat (map (mergeEffects ?n) [0..<?k]) @ stub)"
      and st: "stub \<in> {[], [ArrayBuffer ?k], [ArrayBuffer ?k, Load ?k]}"
      by (elim exE conjE)
    have "filter isSetProgress stub = []" using st by auto
    then show ?thesis
      by (simp only: r snd_conv fst_conv filter.simps filter_append isSetProgress.simps if_True
            filter_mergeEffects progress_list append_Nil2) simp
  qed
  show ?thesis using main kn full by blast
qed

lemma ex_parsed:
  "parsed exArrayBuffer exLoad (exPdfItem ''A.pdf'') = Some [Page ''A1'', Page ''A2'', Page ''A3'']"
  "parsed exArrayBuffer exLoad (exPdfItem ''B.pdf'') = Some [Page ''B1'']"
  "parsed exArrayBuffer exLoad (exPdfItem ''C.pdf'') = Some [Page ''C1'', Page ''C2'']"
  "parsed exArrayBuffer exLoad (exPdfItem ''unreadable.pdf'') = None"
  by (simp_all add: parsed_def exPdfItem_def exPdfFile_def exArrayBuffer_def exLoad_def)

lemma ex_decoded:
  "decoded exReadFileAsDataUrl exLoadImage (exJpgItem ''wide.png'' ''image/png'')
     = Some (''data:wide.png'', 800, 600)"
  "decoded exReadFileAsDataUrl exLoadImage (exJpgItem ''tall.jpg'' ''image/jpeg'')
     = Some (''data:tall.jpg'', 600, 800)"
  "decoded exReadFileAsDataUrl exLoadImage (exJpgItem ''dot.png'' ''image/png'')
     = Some (''data:dot.png'', 1, 1)"
  "decoded exReadFileAsDataUrl exLoadImage (exJpgItem ''sliver.png'' ''image/png'')
     = Some (''data:sliver.png'', 0, 5)"
  "decoded exReadFileAsDataUrl exLoadImage (exJpgItem ''unreadable.png'' ''image/png'') = None"
  by (simp_all add: decoded_def exJpgItem_def exImageFile_def exReadFileAsDataUrl_def
        exLoadImage_def)

lemma ex_entryFormat:
  "entryFormat (exJpgItem n ''image/png'') = PNG"
  "entryFormat (exJpgItem n ''image/jpeg'') = JPEG"
  by (simp_all add: entryFormat_def exJpgItem_def exImageFile_def)

lemma ex_items:
  "items exTwoImages = [exJpgItem ''wide.png'' ''image/png'', exJpgItem ''tall.jpg'' ''image/jpeg'']"
  "items exTinyImages = [exJpgItem ''dot.png'' ''image/png'', exJpgItem ''sliver.png'' ''image/png'']"
  "items exOnePixel = [exJpgItem ''dot.png'' ''image/png'']"
  "items exSecondImageBad = [exJpgItem ''wide.png'' ''image/png'',
     exJpgItem ''unreadable.png'' ''image/png'', exJpgItem ''tall.jpg'' ''image/jpeg'']"
  "items exThreePdfs = [exPdfItem ''A.pdf'', exPdfItem ''B.pdf'', exPdfItem ''C.pdf'']"
  "items exSecondUnreadable
     = [exPdfItem ''A.pdf'', exPdfItem ''unreadable.pdf'', exPdfItem ''B.pdf'']"
  by (simp_all add: exTwoImages_def exTinyImages_def exOnePixel_def exSecondImageBad_def
        exThreePdfs_def exSecondUnreadable_def exJpgToPdf_def exPdfMerge_def)

theorem progress_updates_in_order_witness:
  "filter isSetProgress (snd (mergePdfs exArrayBuffer exLoad exThreePdfs))
     = [SetProgress 0 3, SetProgress 1 3, SetProgress 2 3, SetProgress 3 3]
   \<and> snd (mergePdfs exArrayBuffer exLoad exThreePdfs)
     = [SetProgress 0 3, ArrayBuffer 0, Load 0, SetProgress 1 3, ArrayBuffer 1, Load 1,
        SetProgress 2 3, ArrayBuffer 2, Load 2, SetProgress 3 3]
   \<and> progress (fst (mergePdfs exArrayBuffer exLoad exThreePdfs)) = (3, 3)
   \<and> filter isSetProgress (snd (mergePdfs exArrayBuffer exLoad exSecondUnreadable))
     = [SetProgress 0 3, SetProgress 1 3]
   \<and> progress (fst (mergePdfs exArrayBuffer exLoad exSecondUnreadable)) = (1, 3)"
proof -
  have i1: "items exThreePdfs = [exPdfItem ''A.pdf'', exPdfItem ''B.pdf'', exPdfItem ''C.pdf'']"
    by (simp add: exThreePdfs_def exPdfMerge_def)
  have i2: "items exSecondUnreadable
              = [exPdfItem ''A.pdf'', exPdfItem ''unreadable.pdf'', exPdfItem ''B.pdf'']"
    by (simp add: exSecondUnreadable_def exPdfMerge_def)
  have r1: "readable exArrayBuffer exLoad (items exThreePdfs) = items exThreePdfs"
    by (simp add: i1 readable_def ex_parsed)
  have r2: "readable exArrayBuffer exLoad (items exSecondUnreadable) = [exPdfItem ''A.pdf'']"
    by (simp add: i2 readable_def ex_parsed)
  have a1: "\<forall>x\<in>set (items exThreePdfs). parsed exArrayBuffer exLoad x \<noteq> None"
    by (simp add: i1 ex_parsed)
  have u: "[0..<Suc 3] = [0, 1, 2, 3]" "[0..<3] = [0, 1, 2]" "[0..<Suc 1] = [0, 1]"
    by (simp_all add: upt_rec)
  note w1 = progress_updates_in_order [of exThreePdfs exArrayBuffer exLoad, unfolded r1]
  note w2 = progress_updates_in_order [of exSecondUnreadable exArrayBuffer exLoad, unfolded r2]
  show ?thesis
    using w1 w2 a1 by (simp add: i1 i2 u)
qed

section \<open>The conversion run\<close>

lemma convertLoop_done:
  "length its \<le> i \<Longrightarrow> JpgToPdf_convertLoop rd li its i pdf tr = (Inr pdf, tr)"
  by (simp add: JpgToPdf_convertLoop.simps[of rd li its i pdf tr])

lemma convertLoop_step:
  assumes "i < length its" "decoded rd li (its ! i) = Some d"
    and "pdf = None \<longleftrightarrow> i = 0"
  shows "JpgToPdf_convertLoop rd li its i pdf tr =
           JpgToPdf_convertLoop rd li its (Suc i)
             (Some ((case pdf of None \<Rightarrow> [] | Some c \<Rightarrow> c) @ specCalls i (its ! i) d))
             (tr @ convertEffects i)"
proof -
  obtain u w h where d: "d = (u, w, h)" by (cases d)
  obtain it where it: "its ! i = Item it" "rd (file it) = Some u" "li u = Some (w, h)"
    using assms(2) unfolding d by (auto simp: decoded_def split: slot.splits option.splits)
  have px: "pxToPt w = of_nat w * (3 / 4)" "pxToPt h = of_nat h * (3 / 4)"
    by (simp_all add: pxToPt_def)
  have jpeg: "(type (file it) = ''image/jpeg'' \<or> type (file it) = ''image/jpg'')
                \<longleftrightarrow> type (file it) \<in> {''image/jpeg'', ''image/jpg''}"
    by simp
  have unf: "JpgToPdf_convertLoop rd li its i pdf tr =
      (let wPt = max 1 (pxToPt w);
           hPt = max 1 (pxToPt h);
           orientation = (if wPt \<ge> hPt then Landscape else Portrait);
           pdf1 = (case pdf of
                     None \<Rightarrow> [JsPDF ''pt'' (wPt, hPt) orientation]
                   | Some d \<Rightarrow> d @ [AddPage (wPt, hPt) orientation]);
           isJpeg = (type (file it) = ''image/jpeg'' \<or> type (file it) = ''image/jpg'');
           pdf2 = pdf1 @ [AddImage u (if isJpeg then JPEG else PNG) 0 0 wPt hPt]
       in JpgToPdf_convertLoop rd li its (i + 1) (Some pdf2) (tr @ [ReadAsDataURL i, LoadImage i]))"
    using assms(1) it by (subst JpgToPdf_convertLoop.simps) simp
  show ?thesis
  proof (cases pdf)
    case None
    then have "i = 0" using assms(3) by simp
    then show ?thesis
      unfolding unf using it(1) None
      by (simp only: Let_def px jpeg d specCalls_def entryFormat_def convertEffects_def
            prod.case option.case slot.case if_True append_Nil append_Cons Suc_eq_plus1 simp_thms)
  next
    case (Some c)
    then have "i \<noteq> 0" using assms(3) by simp
    then show ?thesis
      unfolding unf using it(1) Some
      by (simp only: Let_def px jpeg d specCalls_def entryFormat_def convertEffects_def
            prod.case option.case slot.case if_False append_Nil append_Cons append_assoc
            Suc_eq_plus1 simp_thms)
  qed
qed

lemma convertLoop_fail:
  assumes "i < length its" "decoded rd li (its ! i) = None"
  shows "\<exists>e stub. JpgToPdf_convertLoop rd li its i pdf tr = (Inl e, tr @ stub)
            \<and> stub \<in> {[], [ReadAsDataURL i], [ReadAsDataURL i, LoadImage i]}"
proof -
  consider "its ! i = Undefined"
    | it where "its ! i = Item it" "rd (file it) = None"
    | it u where "its ! i = Item it" "rd (file it) = Some u" "li u = None"
    using assms(2) by (auto simp: decoded_def split: slot.splits option.splits)
  then show ?thesis
    using assms(1)
    by cases (simp_all add: JpgToPdf_convertLoop.simps[of rd li its i pdf tr])
qed

lemma pdfAfter_snoc:
  "pdfAfter its (ds @ [d]) =
     Some ((case pdfAfter its ds of None \<Rightarrow> [] | Some c \<Rightarrow> c) @ specCalls (length ds) (its ! length ds) d)"
proof -
  have h: "map (\<lambda>j. specCalls j (its ! j) ((ds @ [d]) ! j)) [0..<length ds]
          = map (\<lambda>j. specCalls j (its ! j) (ds ! j)) [0..<length ds]"
    by (rule map_cong) (simp_all add: nth_append)
  show ?thesis
    by (simp add: pdfAfter_def h)
qed

lemma convertLoop_prefix:
  assumes "length ds \<le> length its"
    and "\<forall>j<length ds. decoded rd li (its ! j) = Some (ds ! j)"
  shows "JpgToPdf_convertLoop rd li its 0 None tr =
           JpgToPdf_convertLoop rd li its (length ds) (pdfAfter its ds)
             (tr @ concat (map convertEffects [0..<length ds]))"
  using assms
proof (induction ds rule: rev_induct)
  case Nil
  then show ?case by (simp add: pdfAfter_def)
next
  case (snoc d ds)
  have len: "length ds < length its" using snoc.prems(1) by simp
  have pre: "\<forall>j<length ds. decoded rd li (its ! j) = Some (ds ! j)"
  proof (intro allI impI)
    fix j assume j: "j < length ds"
    then have "decoded rd li (its ! j) = Some ((ds @ [d]) ! j)"
      using snoc.prems(2) by simp
    then show "decoded rd li (its ! j) = Some (ds ! j)"
      using j by (simp add: nth_append)
  qed
  have last: "decoded rd li (its ! length ds) = Some d"
    using snoc.prems(2) by simp
  have null: "pdfAfter its ds = None \<longleftrightarrow> length ds = 0"
    by (simp add: pdfAfter_def)
  have "JpgToPdf_convertLoop rd li its 0 None tr =
          JpgToPdf_convertLoop rd li its (length ds) (pdfAfter its ds)
            (tr @ concat (map convertEffects [0..<length ds]))"
    using snoc.IH len pre by simp
  also have "\<dots> = JpgToPdf_convertLoop rd li its (Suc (length ds))
            (Some ((case pdfAfter its ds of None \<Rightarrow> [] | Some c \<Rightarrow> c)
                     @ specCalls (length ds) (its ! length ds) d))
            ((tr @ concat (map convertEffects [0..<length ds])) @ convertEffects (length ds))"
    using len last null by (rule convertLoop_step)
  finally show ?case by (simp add: pdfAfter_snoc)
qed

lemma decodable_docs:
  defines "ds \<equiv> \<lambda>rd li its. map (\<lambda>x. the (decoded rd li x)) (decodable rd li its)"
  shows "length (ds rd li its) = length (decodable rd li its)"
    and "length (decodable rd li its) \<le> length its"
    and "\<forall>j<length (ds rd li its). decoded rd li (its ! j) = Some (ds rd li its ! j)"
proof -
  show "length (ds rd li its) = length (decodable rd li its)"
    by (simp add: ds_def)
  show "length (decodable rd li its) \<le> length its"
    by (simp add: decodable_def length_takeWhile_le)
  show "\<forall>j<length (ds rd li its). decoded rd li (its ! j) = Some (ds rd li its ! j)"
  proof (intro allI impI)
    fix j assume j: "j < length (ds rd li its)"
    then have j': "j < length (decodable rd li its)" by (simp add: ds_def)
    then have eq: "decodable rd li its ! j = its ! j"
      unfolding decodable_def by (rule takeWhile_nth)
    have "decodable rd li its ! j \<in> set (decodable rd li its)"
      using j' by simp
    then have "decoded rd li (decodable rd li its ! j) \<noteq> None"
      unfolding decodable_def by (auto dest: set_takeWhileD)
    then show "decoded rd li (its ! j) = Some (ds rd li its ! j)"
      using j' eq by (auto simp: ds_def)
  qed
qed

lemma decodable_stops:
  assumes "length (decodable rd li its) < length its"
  shows "decoded rd li (its ! length (decodable rd li its)) = None"
proof -
  have "\<not> decoded rd li (its ! length (takeWhile (\<lambda>x. decoded rd li x \<noteq> None) its)) \<noteq> None"
    using assms unfolding decodable_def by (rule nth_length_takeWhile)
  then show ?thesis
    unfolding decodable_def by blast
qed

lemma decodable_all:
  assumes "\<forall>x\<in>set its. decoded rd li x \<noteq> None"
  shows "decodable rd li its = its"
  using assms by (simp add: decodable_def)

lemma decodable_some_bad:
  assumes "\<exists>x\<in>set its. decoded rd li x = None"
  shows "length (decodable rd li its) < length its"
proof (rule ccontr)
  let ?P = "\<lambda>x. decoded rd li x \<noteq> None"
  assume "\<not> length (decodable rd li its) < length its"
  moreover have "length (takeWhile ?P its) \<le> length its"
    by (rule length_takeWhile_le)
  ultimately have eq: "length (takeWhile ?P its) = length its"
    by (simp add: decodable_def)
  have "length (takeWhile ?P its) + length (dropWhile ?P its) = length its"
    by (simp only: length_append[symmetric] takeWhile_dropWhile_id)
  then have "length (dropWhile ?P its) = 0"
    using eq by linarith
  then have "dropWhile ?P its = []"
    by (simp only: length_0_conv)
  then have "\<forall>x\<in>set its. ?P x"
    by simp
  then show False using assms by blast
qed

text \<open>\<open>convertToPdf\<close> on a non-empty queue, in closed form.\<close>

lemma convertToPdf_run:
  fixes s :: jpgToPdf and rd li
  defines "n \<equiv> length (items s)"
  defines "k \<equiv> length (decodable rd li (items s))"
  defines "ds \<equiv> map (\<lambda>x. the (decoded rd li x)) (decodable rd li (items s))"
  assumes n1: "0 < n"
  shows "k = n \<Longrightarrow> convertToPdf rd li s =
            (s\<lparr>errorMsg := NoMsg, isConverting := False, pdfUrl := pdfAfter (items s) ds\<rparr>,
             concat (map convertEffects [0..<n]))"
    and "k < n \<Longrightarrow> \<exists>stub. convertToPdf rd li s =
            (s\<lparr>errorMsg := JpgToPdf_convertFailed, isConverting := False, pdfUrl := None\<rparr>,
             concat (map convertEffects [0..<k]) @ stub)
            \<and> stub \<in> {[], [ReadAsDataURL k], [ReadAsDataURL k, LoadImage k]}"
proof -
  have lds: "length ds = k" by (simp add: ds_def k_def)
  have kn: "k \<le> n" unfolding k_def n_def by (rule decodable_docs(2))
  have good: "\<forall>j<length ds. decoded rd li (items s ! j) = Some (ds ! j)"
    unfolding ds_def by (rule decodable_docs(3))
  have pre: "JpgToPdf_convertLoop rd li (items s) 0 None [] =
           JpgToPdf_convertLoop rd li (items s) k (pdfAfter (items s) ds)
             (concat (map convertEffects [0..<k]))"
    using convertLoop_prefix[of ds "items s" rd li "[]"] lds kn good by (simp add: n_def)
  have unfold: "convertToPdf rd li s =
      (case JpgToPdf_convertLoop rd li (items s) 0 None [] of
         (Inr (Some d), tr) \<Rightarrow> (s\<lparr>errorMsg := NoMsg, pdfUrl := Some d, isConverting := False\<rparr>, tr)
       | (Inr None, tr) \<Rightarrow>
           (s\<lparr>pdfUrl := None, errorMsg := JpgToPdf_convertFailed, isConverting := False\<rparr>, tr)
       | (Inl err, tr) \<Rightarrow>
           (s\<lparr>pdfUrl := None, errorMsg := JpgToPdf_convertFailed, isConverting := False\<rparr>, tr))"
    using n1 by (simp add: convertToPdf_def Let_def n_def split: prod.splits sum.splits option.splits)
  show "convertToPdf rd li s =
            (s\<lparr>errorMsg := NoMsg, isConverting := False, pdfUrl := pdfAfter (items s) ds\<rparr>,
             concat (map convertEffects [0..<n]))" if kn': "k = n"
  proof -
    have "ds \<noteq> []" using lds kn' n1 by auto
    then obtain c where c: "pdfAfter (items s) ds = Some c"
      by (simp add: pdfAfter_def)
    have "JpgToPdf_convertLoop rd li (items s) 0 None [] =
            (Inr (Some c), concat (map convertEffects [0..<n]))"
      using pre kn' c by (simp add: convertLoop_done n_def)
    then show ?thesis
      by (simp only: unfold c) simp
  qed
  show "\<exists>stub. convertToPdf rd li s =
            (s\<lparr>errorMsg := JpgToPdf_convertFailed, isConverting := False, pdfUrl := None\<rparr>,
             concat (map convertEffects [0..<k]) @ stub)
            \<and> stub \<in> {[], [ReadAsDataURL k], [ReadAsDataURL k, LoadImage k]}" if kn': "k < n"
  proof -
    have bad: "decoded rd li (items s ! k) = None"
      using kn' decodable_stops[of rd li "items s"] by (simp add: k_def n_def)
    have "k < length (items s)" using kn' by (simp add: n_def)
    from convertLoop_fail[OF this bad, of "pdfAfter (items s) ds" "concat (map convertEffects [0..<k])"]
    obtain e stub where
      h1: "JpgToPdf_convertLoop rd li (items s) k (pdfAfter (items s) ds)
             (concat (map convertEffects [0..<k])) =
           (Inl e, concat (map convertEffects [0..<k]) @ stub)"
      and h2: "stub \<in> {[], [ReadAsDataURL k], [ReadAsDataURL k, LoadImage k]}"
      by (elim exE conjE)
    have "JpgToPdf_convertLoop rd li (items s) 0 None [] =
            (Inl e, concat (map convertEffects [0..<k]) @ stub)"
      using pre h1 by (rule trans)
    then have "convertToPdf rd li s =
            (s\<lparr>errorMsg := JpgToPdf_convertFailed, isConverting := False, pdfUrl := None\<rparr>,
             concat (map convertEffects [0..<k]) @ stub)"
      by (simp only: unfold) simp
    then show ?thesis using h2 by (intro exI[of _ stub] conjI)
  qed
qed

lemma all_decoded_decodable:
  assumes "length ds = length its" "\<forall>k<length its. decoded rd li (its ! k) = Some (ds ! k)"
  shows "decodable rd li its = its" and "map (\<lambda>x. the (decoded rd li x)) its = ds"
proof -
  have "\<forall>x\<in>set its. decoded rd li x \<noteq> None"
  proof
    fix x assume "x \<in> set its"
    then obtain i where "i < length its" "its ! i = x"
      by (auto simp: in_set_conv_nth)
    then have "decoded rd li x = Some (ds ! i)"
      using assms(2) by blast
    then show "decoded rd li x \<noteq> None"
      by (simp only: option.distinct not_False_eq_True)
  qed
  then show "decodable rd li its = its" by (rule decodable_all)
  show "map (\<lambda>x. the (decoded rd li x)) its = ds"
  proof (rule nth_equalityI)
    show "length (map (\<lambda>x. the (decoded rd li x)) its) = length ds"
      using assms(1) by simp
    fix i assume "i < length (map (\<lambda>x. the (decoded rd li x)) its)"
    then have i: "i < length its" by simp
    then have "decoded rd li (its ! i) = Some (ds ! i)"
      using assms(2) by blast
    then have "the (decoded rd li (its ! i)) = ds ! i"
      by (simp only: option.sel)
    then show "map (\<lambda>x. the (decoded rd li x)) its ! i = ds ! i"
      using i by (simp only: nth_map)
  qed
qed

lemma specCalls_nondegenerate: "list_all nondegenerate (specCalls k x d)"
  by (cases d) (simp add: specCalls_def Let_def)

lemma convertToPdf_all_decoded:
  assumes "items s \<noteq> []" and lds: "length ds = length (items s)"
    and good: "\<forall>k<length (items s). decoded rd li (items s ! k) = Some (ds ! k)"
  shows "pdfUrl (fst (convertToPdf rd li s)) =
        Some (concat (map (\<lambda>k. specCalls k (items s ! k) (ds ! k)) [0..<length (items s)]))"
proof -
  have n1: "0 < length (items s)" using assms(1) by simp
  note r = all_decoded_decodable[OF lds good]
  have "length (decodable rd li (items s)) = length (items s)"
    by (simp only: r(1))
  from convertToPdf_run(1)[OF n1 this]
  have "pdfUrl (fst (convertToPdf rd li s)) = pdfAfter (items s) ds"
    by (simp add: r)
  moreover have "ds \<noteq> []" using lds n1 by auto
  ultimately show ?thesis
    by (simp add: pdfAfter_def lds)
qed

lemma specCalls_unfold:
  "specCalls k x (u, w, h) =
        [(if k = 0 then JsPDF ''pt'' else AddPage)
           (max 1 (pxToPt w), max 1 (pxToPt h))
           (if max 1 (pxToPt w) \<ge> max 1 (pxToPt h) then Landscape else Portrait),
         AddImage u (entryFormat x) 0 0 (max 1 (pxToPt w)) (max 1 (pxToPt h))]"
  by (simp add: specCalls_def pxToPt_def Let_def)

text \<open>
  C8 (as amended). When every entry of a non-empty queue reads and decodes, the
  published document consists, image by image in queue order, of the calls of
  \<open>specCalls\<close>: each pixel dimension is converted with the one factor 0.75 and raised to 1
  where the result is below 1, the page has exactly that size, its orientation is
  landscape exactly when that width is at least that height, and the image is placed at
  the origin with exactly the page's width and height. For an image of at least 2 pixels
  in each dimension the page size is exactly the converted size.
\<close>

theorem page_fits_clamped_image:
  "(items s \<noteq> [] \<and> length ds = length (items s)
      \<and> (\<forall>k<length (items s). decoded rd li (items s ! k) = Some (ds ! k)) \<longrightarrow>
      pdfUrl (fst (convertToPdf rd li s)) =
        Some (concat (map (\<lambda>k. specCalls k (items s ! k) (ds ! k)) [0..<length (items s)])))
   \<and> specCalls k x (u, w, h) =
        [(if k = 0 then JsPDF ''pt'' else AddPage)
           (max 1 (pxToPt w), max 1 (pxToPt h))
           (if max 1 (pxToPt w) \<ge> max 1 (pxToPt h) then Landscape else Portrait),
         AddImage u (entryFormat x) 0 0 (max 1 (pxToPt w)) (max 1 (pxToPt h))]
   \<and> (2 \<le> w \<and> 2 \<le> h \<longrightarrow>
        specCalls k x (u, w, h) =
          [(if k = 0 then JsPDF ''pt'' else AddPage)
             (pxToPt w, pxToPt h)
             (if pxToPt w \<ge> pxToPt h then Landscape else Portrait),
           AddImage u (entryFormat x) 0 0 (pxToPt w) (pxToPt h)])"
proof (intro conjI impI)
  assume "items s \<noteq> [] \<and> length ds = length (items s)
      \<and> (\<forall>k<length (items s). decoded rd li (items s ! k) = Some (ds ! k))"
  then have "items s \<noteq> []" and "length ds = length (items s)"
    and "\<forall>k<length (items s). decoded rd li (items s ! k) = Some (ds ! k)"
    by simp_all
  then show "pdfUrl (fst (convertToPdf rd li s)) =
        Some (concat (map (\<lambda>k. specCalls k (items s ! k) (ds ! k)) [0..<length (items s)]))"
    by (rule convertToPdf_all_decoded)
next
  show "specCalls k x (u, w, h) =
        [(if k = 0 then JsPDF ''pt'' else AddPage)
           (max 1 (pxToPt w), max 1 (pxToPt h))
           (if max 1 (pxToPt w) \<ge> max 1 (pxToPt h) then Landscape else Portrait),
         AddImage u (entryFormat x) 0 0 (max 1 (pxToPt w)) (max 1 (pxToPt h))]"
    by (rule specCalls_unfold)
next
  assume "2 \<le> w \<and> 2 \<le> h"
  then have "(of_nat 2 :: rat) \<le> of_nat w" "(of_nat 2 :: rat) \<le> of_nat h"
    by (simp_all only: of_nat_le_iff)
  then have "(2::rat) \<le> of_nat w" "(2::rat) \<le> of_nat h"
    by simp_all
  then have "max 1 (pxToPt w) = pxToPt w" "max 1 (pxToPt h) = pxToPt h"
    by (simp_all add: pxToPt_def max_def)
  then show "specCalls k x (u, w, h) =
          [(if k = 0 then JsPDF ''pt'' else AddPage)
             (pxToPt w, pxToPt h)
             (if pxToPt w \<ge> pxToPt h then Landscape else Portrait),
           AddImage u (entryFormat x) 0 0 (pxToPt w) (pxToPt h)]"
    by (simp add: specCalls_def Let_def pxToPt_def)
qed

theorem page_fits_clamped_image_witness:
  "pdfUrl (fst (convertToPdf exReadFileAsDataUrl exLoadImage exTwoImages))
     = Some [JsPDF ''pt'' (600, 450) Landscape, AddImage ''data:wide.png'' PNG 0 0 600 450,
             AddPage (450, 600) Portrait, AddImage ''data:tall.jpg'' JPEG 0 0 450 600]
   \<and> specCalls 1 (exJpgItem ''tall.jpg'' ''image/jpeg'') (''data:tall.jpg'', 600, 800)
     = [AddPage (pxToPt 600, pxToPt 800) Portrait,
        AddImage ''data:tall.jpg'' JPEG 0 0 (pxToPt 600) (pxToPt 800)]"
proof -
  have g: "\<forall>k<length (items exTwoImages).
            decoded exReadFileAsDataUrl exLoadImage (items exTwoImages ! k)
              = Some ([(''data:wide.png'', 800, 600), (''data:tall.jpg'', 600, 800)] ! k)"
    by (simp add: ex_items ex_decoded less_Suc_eq)
  have u: "[0..<2] = [0, 1]" by (simp add: upt_rec)
  note w = page_fits_clamped_image [of exTwoImages
      "[(''data:wide.png'', 800, 600), (''data:tall.jpg'', 600, 800)]"
      exReadFileAsDataUrl exLoadImage 1 "exJpgItem ''tall.jpg'' ''image/jpeg''"
      "''data:tall.jpg''" 600 800]
  show ?thesis
    using w g by (simp add: ex_items u specCalls_unfold ex_entryFormat pxToPt_def)
qed

text \<open>
  C8 as stated fails for an image one pixel wide or high: the converted size of one pixel
  is three quarters of a point, and the page is one point.
\<close>

theorem one_pixel_page_is_not_converted_size:
  "decoded exReadFileAsDataUrl exLoadImage (items exOnePixel ! 0) = Some (''data:dot.png'', 1, 1)
   \<and> pdfUrl (fst (convertToPdf exReadFileAsDataUrl exLoadImage exOnePixel))
       = Some [JsPDF ''pt'' (1, 1) Landscape, AddImage ''data:dot.png'' PNG 0 0 1 1]
   \<and> (pxToPt 1, pxToPt 1) = (3 / 4, 3 / 4)
   \<and> (pxToPt 1, pxToPt 1) \<noteq> (1, 1)"
proof -
  have g: "\<forall>k<length (items exOnePixel).
            decoded exReadFileAsDataUrl exLoadImage (items exOnePixel ! k)
              = Some ([(''data:dot.png'', 1, 1)] ! k)"
    by (simp add: ex_items ex_decoded)
  have "pdfUrl (fst (convertToPdf exReadFileAsDataUrl exLoadImage exOnePixel)) =
        Some (concat (map (\<lambda>k. specCalls k (items exOnePixel ! k) ([(''data:dot.png'', 1, 1)] ! k))
          [0..<length (items exOnePixel)]))"
    by (rule convertToPdf_all_decoded) (simp_all add: ex_items ex_decoded)
  then show ?thesis
    by (simp add: ex_items ex_decoded specCalls_unfold ex_entryFormat pxToPt_def)
qed

text \<open>
  C10. Whatever the images decode to, every page of a published document, and every
  image placement on it, is at least one point wide and one point high.
\<close>

theorem pages_are_nondegenerate:
  assumes "pdfUrl (fst (convertToPdf rd li s)) = Some d"
  shows "list_all nondegenerate d"
proof -
  let ?n = "length (items s)" and ?k = "length (decodable rd li (items s))"
  let ?ds = "map (\<lambda>x. the (decoded rd li x)) (decodable rd li (items s))"
  have n1: "0 < ?n"
  proof (rule ccontr)
    assume "\<not> 0 < ?n"
    then have "pdfUrl (fst (convertToPdf rd li s)) = None"
      by (simp add: convertToPdf_def)
    then show False using assms by simp
  qed
  have kn: "?k \<le> ?n" by (rule decodable_docs(2))
  have "?k = ?n"
  proof (rule ccontr)
    assume "?k \<noteq> ?n"
    then have "?k < ?n" using kn by simp
    from convertToPdf_run(2)[OF n1 this] have "pdfUrl (fst (convertToPdf rd li s)) = None"
      by auto
    then show False using assms by simp
  qed
  from convertToPdf_run(1)[OF n1 this]
  have "pdfAfter (items s) ?ds = Some d"
    using assms by simp
  then have "d = concat (map (\<lambda>j. specCalls j (items s ! j) (?ds ! j)) [0..<length ?ds])"
    by (simp add: pdfAfter_def split: if_splits)
  then show ?thesis
    by (simp add: list_all_iff specCalls_nondegenerate[unfolded list_all_iff])
qed

theorem pages_are_nondegenerate_witness:
  "\<exists>d. pdfUrl (fst (convertToPdf exReadFileAsDataUrl exLoadImage exTinyImages)) = Some d
       \<and> list_all nondegenerate d
       \<and> d = [JsPDF ''pt'' (1, 1) Landscape, AddImage ''data:dot.png'' PNG 0 0 1 1,
              AddPage (1, 15 / 4) Portrait, AddImage ''data:sliver.png'' PNG 0 0 1 (15 / 4)]"
proof -
  have u: "[0..<2] = [0, 1]" by (simp add: upt_rec)
  have "pdfUrl (fst (convertToPdf exReadFileAsDataUrl exLoadImage exTinyImages)) =
        Some (concat (map (\<lambda>k. specCalls k (items exTinyImages ! k)
                ([(''data:dot.png'', 1, 1), (''data:sliver.png'', 0, 5)] ! k))
          [0..<length (items exTinyImages)]))"
    by (rule convertToPdf_all_decoded) (simp_all add: ex_items ex_decoded less_Suc_eq)
  then have d: "pdfUrl (fst (convertToPdf exReadFileAsDataUrl exLoadImage exTinyImages))
      = Some [JsPDF ''pt'' (1, 1) Landscape, AddImage ''data:dot.png'' PNG 0 0 1 1,
              AddPage (1, 15 / 4) Portrait, AddImage ''data:sliver.png'' PNG 0 0 1 (15 / 4)]"
    by (simp add: ex_items u specCalls_unfold ex_entryFormat pxToPt_def)
  from pages_are_nondegenerate [OF d] d show ?thesis
    by blast
qed

section \<open>A failed run\<close>

lemma mergeEffects_indices:
  "ArrayBuffer j \<in> set (concat (map (mergeEffects n) [0..<k])) \<longleftrightarrow> j < k"
  "Load j \<in> set (concat (map (mergeEffects n) [0..<k])) \<longleftrightarrow> j < k"
  by (auto simp: mergeEffects_def)

lemma convertEffects_indices:
  "ReadAsDataURL j \<in> set (concat (map convertEffects [0..<k])) \<longleftrightarrow> j < k"
  "LoadImage j \<in> set (concat (map convertEffects [0..<k])) \<longleftrightarrow> j < k"
  by (auto simp: convertEffects_def)

text \<open>
  C2. A merge run over at least two entries, or a conversion run, in which some entry
  cannot be read or decoded, publishes nothing (the output handle is cleared), reports
  the one failure message of the tool, leaves the queue as it was and clears the busy
  flag. It stops at the first such entry: no item after it is read or decoded, and the
  merge counter stays at the number of items completed before it.
\<close>

theorem failed_run_publishes_nothing:
  "(2 \<le> length (items s) \<and> (\<exists>x\<in>set (items s). parsed ab ld x = None) \<longrightarrow>
      mergedPdfUrl (fst (mergePdfs ab ld s)) = None
      \<and> errorMsg (fst (mergePdfs ab ld s)) = PdfMerge_mergeFailed
      \<and> items (fst (mergePdfs ab ld s)) = items s
      \<and> isMerging (fst (mergePdfs ab ld s)) = False
      \<and> progress (fst (mergePdfs ab ld s)) = (length (readable ab ld (items s)), length (items s))
      \<and> (\<forall>i. length (readable ab ld (items s)) < i \<longrightarrow>
            ArrayBuffer i \<notin> set (snd (mergePdfs ab ld s)) \<and> Load i \<notin> set (snd (mergePdfs ab ld s))))
   \<and> ((\<exists>x\<in>set (items j). decoded rd li x = None) \<longrightarrow>
      pdfUrl (fst (convertToPdf rd li j)) = None
      \<and> errorMsg (fst (convertToPdf rd li j)) = JpgToPdf_convertFailed
      \<and> items (fst (convertToPdf rd li j)) = items j
      \<and> isConverting (fst (convertToPdf rd li j)) = False
      \<and> (\<forall>i. length (decodable rd li (items j)) < i \<longrightarrow>
            ReadAsDataURL i \<notin> set (snd (convertToPdf rd li j))
            \<and> LoadImage i \<notin> set (snd (convertToPdf rd li j))))"
proof (intro conjI impI)
  let ?n = "length (items s)" and ?k = "length (readable ab ld (items s))"
  assume a: "2 \<le> ?n \<and> (\<exists>x\<in>set (items s). parsed ab ld x = None)"
  then have n2: "2 \<le> ?n" and kn: "?k < ?n"
    by (simp_all add: readable_some_bad)
  from mergePdfs_run(2)[OF n2 kn] obtain stub where
    r: "mergePdfs ab ld s =
          (s\<lparr>errorMsg := PdfMerge_mergeFailed, mergedPdfUrl := None, isMerging := False,
             progress := (?k, ?n)\<rparr>,
           SetProgress 0 ?n # concat (map (mergeEffects ?n) [0..<?k]) @ stub)"
    and st: "stub \<in> {[], [ArrayBuffer ?k], [ArrayBuffer ?k, Load ?k]}"
    by (elim exE conjE)
  show "mergedPdfUrl (fst (mergePdfs ab ld s)) = None" by (simp add: r)
  show "errorMsg (fst (mergePdfs ab ld s)) = PdfMerge_mergeFailed" by (simp add: r)
  show "items (fst (mergePdfs ab ld s)) = items s" by (simp add: r)
  show "isMerging (fst (mergePdfs ab ld s)) = False" by (simp add: r)
  show "progress (fst (mergePdfs ab ld s)) = (?k, ?n)" by (simp add: r)
  show "\<forall>i. ?k < i \<longrightarrow>
            ArrayBuffer i \<notin> set (snd (mergePdfs ab ld s)) \<and> Load i \<notin> set (snd (mergePdfs ab ld s))"
  proof (intro allI impI)
    fix i assume i: "?k < i"
    have "ArrayBuffer i \<notin> set stub" "Load i \<notin> set stub"
      using st i by auto
    then show "ArrayBuffer i \<notin> set (snd (mergePdfs ab ld s)) \<and> Load i \<notin> set (snd (mergePdfs ab ld s))"
      using i by (simp add: r mergeEffects_indices del: set_concat)
  qed
next
  let ?n = "length (items j)" and ?k = "length (decodable rd li (items j))"
  assume a: "\<exists>x\<in>set (items j). decoded rd li x = None"
  then have kn: "?k < ?n" by (rule decodable_some_bad)
  then have n1: "0 < ?n" by linarith
  from convertToPdf_run(2)[OF n1 kn] obtain stub where
    r: "convertToPdf rd li j =
          (j\<lparr>errorMsg := JpgToPdf_convertFailed, isConverting := False, pdfUrl := None\<rparr>,
           concat (map convertEffects [0..<?k]) @ stub)"
    and st: "stub \<in> {[], [ReadAsDataURL ?k], [ReadAsDataURL ?k, LoadImage ?k]}"
    by (elim exE conjE)
  show "pdfUrl (fst (convertToPdf rd li j)) = None" by (simp add: r)
  show "errorMsg (fst (convertToPdf rd li j)) = JpgToPdf_convertFailed" by (simp add: r)
  show "items (fst (convertToPdf rd li j)) = items j" by (simp add: r)
  show "isConverting (fst (convertToPdf rd li j)) = False" by (simp add: r)
  show "\<forall>i. ?k < i \<longrightarrow>
            ReadAsDataURL i \<notin> set (snd (convertToPdf rd li j))
            \<and> LoadImage i \<notin> set (snd (convertToPdf rd li j))"
  proof (intro allI impI)
    fix i assume i: "?k < i"
    have "ReadAsDataURL i \<notin> set stub" "LoadImage i \<notin> set stub"
      using st i by auto
    then show "ReadAsDataURL i \<notin> set (snd (convertToPdf rd li j))
            \<and> LoadImage i \<notin> set (snd (convertToPdf rd li j))"
      using i by (simp add: r convertEffects_indices del: set_concat)
  qed
qed

theorem failed_run_publishes_nothing_witness:
  "mergedPdfUrl (fst (mergePdfs exArrayBuffer exLoad exSecondUnreadable)) = None
   \<and> errorMsg (fst (mergePdfs exArrayBuffer exLoad exSecondUnreadable)) = PdfMerge_mergeFailed
   \<and> items (fst (mergePdfs exArrayBuffer exLoad exSecondUnreadable))
       = [exPdfItem ''A.pdf'', exPdfItem ''unreadable.pdf'', exPdfItem ''B.pdf'']
   \<and> progress (fst (mergePdfs exArrayBuffer exLoad exSecondUnreadable)) = (1, 3)
   \<and> ArrayBuffer 2 \<notin> set (snd (mergePdfs exArrayBuffer exLoad exSecondUnreadable))
   \<and> pdfUrl (fst (convertToPdf exReadFileAsDataUrl exLoadImage exSecondImageBad)) = None
   \<and> errorMsg (fst (convertToPdf exReadFileAsDataUrl exLoadImage exSecondImageBad))
       = JpgToPdf_convertFailed
   \<and> items (fst (convertToPdf exReadFileAsDataUrl exLoadImage exSecondImageBad))
       = items exSecondImageBad
   \<and> ReadAsDataURL 2 \<notin> set (snd (convertToPdf exReadFileAsDataUrl exLoadImage exSecondImageBad))"
proof -
  have r1: "readable exArrayBuffer exLoad (items exSecondUnreadable) = [exPdfItem ''A.pdf'']"
    by (simp add: ex_items readable_def ex_parsed)
  have r2: "decodable exReadFileAsDataUrl exLoadImage (items exSecondImageBad)
              = [exJpgItem ''wide.png'' ''image/png'']"
    by (simp add: ex_items decodable_def ex_decoded)
  have b1: "\<exists>x\<in>set (items exSecondUnreadable). parsed exArrayBuffer exLoad x = None"
    by (simp add: ex_items ex_parsed)
  have b2: "\<exists>x\<in>set (items exSecondImageBad). decoded exReadFileAsDataUrl exLoadImage x = None"
    by (simp add: ex_items ex_decoded)
  have l: "length (items exSecondUnreadable) = 3"
    by (simp add: ex_items)
  have h1: "2 \<le> length (items exSecondUnreadable)
            \<and> (\<exists>x\<in>set (items exSecondUnreadable). parsed exArrayBuffer exLoad x = None)"
    using b1 l by simp
  note w = failed_run_publishes_nothing [of exSecondUnreadable exArrayBuffer exLoad
      exSecondImageBad exReadFileAsDataUrl exLoadImage, unfolded r1 r2]
  note c1 = w [THEN conjunct1, THEN mp, OF h1]
  note c2 = w [THEN conjunct2, THEN mp, OF b2]
  have "ArrayBuffer 2 \<notin> set (snd (mergePdfs exArrayBuffer exLoad exSecondUnreadable))"
    using c1 by simp
  moreover have "ReadAsDataURL 2
      \<notin> set (snd (convertToPdf exReadFileAsDataUrl exLoadImage exSecondImageBad))"
    using c2 by simp
  ultimately show ?thesis
    using c1 c2 l by (simp add: ex_items(6))
qed

end
